theory Spec2Isabelle
  imports Main "HOL-Library.Word"
begin

section \<open>The schema cache of msxml3 (dlls/msxml3/schema.c)\<close>

text \<open>
  A shallow embedding of the schema cache: a chained hash table from namespace URIs to
  reference-counted cache entries, and the IXMLDOMSchemaCollection methods over it.
  Heap-allocated cache entries live in an explicit store, since one entry can be shared
  by several collections. Calls that hand a resource to a collaborator (the document
  reference counting of domdoc.c, libxml2's schema and document destructors, the heap)
  are appended to a log, in program order. A NULL dereference or the use of a freed entry
  is a value of type \<open>fault\<close>, on the left of a sum.
\<close>

subsection \<open>Basic types\<close>

type_synonym LONG = "32 word"
type_synonym xmlChars = string
type_synonym BSTR = "16 word list option"
type_synonym xmlDocPtr = nat
type_synonym xmlSchemaPtr = nat
type_synonym cache_entry_ptr = nat

datatype HRESULT = S_OK | E_FAIL | E_INVALIDARG | E_POINTER | E_NOTIMPL | E_OUTOFMEMORY

datatype fault = NullDeref | UseAfterFree

datatype CLSID = CLSID_DOMDocument30 | CLSID_DOMDocument40

definition DEFAULT_HASHTABLE_SIZE :: nat where
  "DEFAULT_HASHTABLE_SIZE = 31"

definition XSD_schema :: xmlChars where "XSD_schema = ''schema''"
definition XSD_nsURI :: xmlChars where "XSD_nsURI = ''http://www.w3.org/2001/XMLSchema''"
definition XDR_schema :: xmlChars where "XDR_schema = ''Schema''"
definition XDR_nsURI :: xmlChars where "XDR_nsURI = ''urn:schemas-microsoft-com:xml-data''"

datatype SCHEMA_TYPE = SCHEMA_TYPE_INVALID | SCHEMA_TYPE_XDR | SCHEMA_TYPE_XSD

record cache_entry =
  type :: SCHEMA_TYPE
  schema :: "xmlSchemaPtr option"
  doc :: xmlDocPtr
  ref :: LONG

record cache_index_data =
  index :: LONG
  out :: BSTR

subsection \<open>libxml2 documents, as far as the cache reads them\<close>

datatype xmlElementType =
  XML_ELEMENT_NODE | XML_TEXT_NODE | XML_PI_NODE | XML_COMMENT_NODE | XML_DTD_NODE

record xmlNs =
  href :: "xmlChars option"
  prefix :: "xmlChars option"

datatype xmlNode =
  XmlNode (node_type: xmlElementType) (node_name: xmlChars) (node_ns: "xmlNs option")
    (node_children: "xmlNode list")

datatype xmlDoc = XmlDoc (doc_children: "xmlNode list")

text \<open>libxml2's \<^verbatim>\<open>xmlDocGetRootElement\<close>: the first child of the document that is an element.\<close>

definition xmlDocGetRootElement :: "xmlDoc \<Rightarrow> xmlNode option" where
  "xmlDocGetRootElement d = find (\<lambda>n. node_type n = XML_ELEMENT_NODE) (doc_children d)"

text \<open>libxml2's \<^verbatim>\<open>xmlStrEqual\<close>: the same pointer is equal, a NULL is equal to nothing else.\<close>

definition xmlStrEqual :: "xmlChars option \<Rightarrow> xmlChars option \<Rightarrow> bool" where
  "xmlStrEqual str1 str2 =
     (if str1 = str2 then True
      else if str1 = None then False
      else if str2 = None then False
      else the str1 = the str2)"

subsection \<open>The collaborators whose code is outside schema.c\<close>

text \<open>
  What the cache takes from its collaborators is a parameter of the model: libxml2's hash
  function, the string conversions of msxml\_private.h, whether libxml2 can open and compile
  a schema, and the document view that domdoc.c builds over a libxml2 document.
\<close>

record collaborators =
  xmlHashComputeKey :: "xmlChars \<Rightarrow> nat"
  xmlChar_from_wchar :: "BSTR \<Rightarrow> xmlChars"
  bstr_from_xmlChar :: "xmlChars \<Rightarrow> BSTR"
  xmlSchemaNewParserCtxt :: "xmlChars \<Rightarrow> bool"
  xmlSchemaParse_url :: "xmlChars \<Rightarrow> bool"
  xmlSchemaParse_doc :: "xmlDoc \<Rightarrow> bool"
  DOMDocument_create_from_xmldoc :: "xmlDocPtr \<Rightarrow> nat option \<Rightarrow> HRESULT \<times> nat option"

subsection \<open>libxml2's chained hash table\<close>

text \<open>
  libxml2 is a library outside the repository; its hash table is modelled on the contract
  of the five functions the cache calls. The table is the list of its buckets, each the chain of (name, payload) pairs in chain
  order: a new pair goes to the end of the chain of its bucket, a scan visits the buckets
  in order and each chain from its head. The hash function is the collaborators'
  \<open>xmlHashComputeKey\<close>, so the order of a scan is whatever that function makes it.
  The number of buckets is fixed at creation (schema.c: "TODO: grow/shrink hashtable");
  a rehash inside libxml2 would permute the scan order and nothing else. Payloads are
  never NULL: the cache stores only entries it has just dereferenced.
\<close>

type_synonym 'a xmlHashTable = "(xmlChars \<times> 'a) list list"

definition xmlHashCreate :: "nat \<Rightarrow> 'a xmlHashTable" where
  "xmlHashCreate n = replicate n []"

definition bucket :: "collaborators \<Rightarrow> 'a xmlHashTable \<Rightarrow> xmlChars \<Rightarrow> nat" where
  "bucket X t name = xmlHashComputeKey X name mod length t"

definition xmlHashLookup :: "collaborators \<Rightarrow> 'a xmlHashTable \<Rightarrow> xmlChars \<Rightarrow> 'a option" where
  "xmlHashLookup X t name = map_of (t ! bucket X t name) name"

definition xmlHashAddEntry ::
  "collaborators \<Rightarrow> 'a xmlHashTable \<Rightarrow> xmlChars \<Rightarrow> 'a \<Rightarrow> int \<times> 'a xmlHashTable" where
  "xmlHashAddEntry X t name userdata =
     (case xmlHashLookup X t name of
        Some _ \<Rightarrow> (- 1, t)
      | None \<Rightarrow> (0, t[bucket X t name := t ! bucket X t name @ [(name, userdata)]]))"

fun chain_unlink :: "xmlChars \<Rightarrow> (xmlChars \<times> 'a) list \<Rightarrow> (xmlChars \<times> 'a) list" where
  "chain_unlink name [] = []"
| "chain_unlink name (e # es) = (if fst e = name then es else e # chain_unlink name es)"

text \<open>
  \<^verbatim>\<open>xmlHashRemoveEntry(table, name, f)\<close>: when the name is found, the deallocator \<open>f\<close> runs
  on the payload and the pair is unlinked; the result is 0. Otherwise nothing changes and
  the result is -1.
\<close>

definition xmlHashRemoveEntry ::
  "collaborators \<Rightarrow> 'a xmlHashTable \<Rightarrow> xmlChars \<Rightarrow> ('a \<Rightarrow> xmlChars \<Rightarrow> 's \<Rightarrow> fault + 's) \<Rightarrow> 's
     \<Rightarrow> fault + (int \<times> 'a xmlHashTable \<times> 's)" where
  "xmlHashRemoveEntry X t name f s =
     (case xmlHashLookup X t name of
        None \<Rightarrow> Inr (- 1, t, s)
      | Some payload \<Rightarrow>
          (case f payload name s of
             Inl flt \<Rightarrow> Inl flt
           | Inr s' \<Rightarrow>
               Inr (0, t[bucket X t name := chain_unlink name (t ! bucket X t name)], s')))"

definition xmlHashSize :: "'a xmlHashTable \<Rightarrow> int" where
  "xmlHashSize t = int (length (concat t))"

text \<open>
  \<^verbatim>\<open>xmlHashScan(table, f, data)\<close> calls \<open>f payload data name\<close> on every pair, in bucket
  order. The scanner's effect on what \<open>data\<close> points to is the new value of \<open>data\<close>.
\<close>

definition xmlHashScan :: "'a xmlHashTable \<Rightarrow> ('a \<Rightarrow> 'd \<Rightarrow> xmlChars \<Rightarrow> 'd) \<Rightarrow> 'd \<Rightarrow> 'd" where
  "xmlHashScan t f data = fold (\<lambda>e d. f (snd e) d (fst e)) (concat t) data"

subsection \<open>The process state\<close>

datatype call =
    Xmldoc_init xmlDocPtr CLSID
  | Xmldoc_add_ref xmlDocPtr
  | Xmldoc_release xmlDocPtr
  | Schema_doc_NULL xmlSchemaPtr
  | XmlSchemaFree xmlSchemaPtr
  | XmlFreeDoc xmlDocPtr
  | Heap_free cache_entry_ptr
  | IXMLDOMNode_Release
  | DOMDocument_create xmlDocPtr

text \<open>
  \<open>heap\<close> holds the \<^verbatim>\<open>cache_entry\<close> structs: the pointer is the position, a freed struct
  is \<open>None\<close>, \<^verbatim>\<open>heap_alloc\<close> takes the next position. \<open>xml_next\<close> is the next address
  libxml2 gives to a document or a schema it creates.
\<close>

record state =
  heap :: "cache_entry option list"
  xml_next :: nat
  calls :: "call list"

record schema_cache =
  cache :: "cache_entry_ptr xmlHashTable"
  sc_ref :: LONG

definition deref :: "state \<Rightarrow> cache_entry_ptr \<Rightarrow> cache_entry option" where
  "deref s p = (if p < length (heap s) then heap s ! p else None)"

subsection \<open>Cache entries\<close>

definition cache_entry_add_ref :: "cache_entry_ptr \<Rightarrow> state \<Rightarrow> fault + (LONG \<times> state)" where
  "cache_entry_add_ref entry s =
     (case deref s entry of
        None \<Rightarrow> Inl UseAfterFree
      | Some e \<Rightarrow>
          Inr (ref e + 1, s\<lparr>heap := (heap s)[entry := Some (e\<lparr>ref := ref e + 1\<rparr>)]\<rparr>))"

definition cache_entry_release :: "cache_entry_ptr \<Rightarrow> state \<Rightarrow> fault + (LONG \<times> state)" where
  "cache_entry_release entry s =
     (case deref s entry of
        None \<Rightarrow> Inl UseAfterFree
      | Some e \<Rightarrow>
          if ref e - 1 = 0 then
            (if type e = SCHEMA_TYPE_XSD then
               (case schema e of
                  None \<Rightarrow> Inl NullDeref
                | Some sch \<Rightarrow>
                    Inr (ref e - 1,
                         s\<lparr>heap := (heap s)[entry := None],
                           calls := calls s @ [Xmldoc_release (doc e), Schema_doc_NULL sch,
                                               XmlSchemaFree sch, Heap_free entry]\<rparr>))
             else
               Inr (ref e - 1,
                    s\<lparr>heap := (heap s)[entry := None],
                      calls := calls s @ [Xmldoc_release (doc e), Heap_free entry]\<rparr>))
          else
            Inr (ref e - 1, s\<lparr>heap := (heap s)[entry := Some (e\<lparr>ref := ref e - 1\<rparr>)]\<rparr>))"

definition cache_free :: "cache_entry_ptr \<Rightarrow> xmlChars \<Rightarrow> state \<Rightarrow> fault + state" where
  "cache_free data name s =
     (case cache_entry_release data s of Inl flt \<Rightarrow> Inl flt | Inr (_, s') \<Rightarrow> Inr s')"

text \<open>
  The detector. Its only caller passes a document that is not NULL, so the argument is
  the document itself.
\<close>

definition schema_type_from_xmlDocPtr :: "xmlDoc \<Rightarrow> SCHEMA_TYPE" where
  "schema_type_from_xmlDocPtr d =
     (case xmlDocGetRootElement d of
        None \<Rightarrow> SCHEMA_TYPE_INVALID
      | Some root \<Rightarrow>
          (case node_ns root of
             None \<Rightarrow> SCHEMA_TYPE_INVALID
           | Some ns \<Rightarrow>
               if xmlStrEqual (Some (node_name root)) (Some XDR_schema) \<and>
                  xmlStrEqual (href ns) (Some XDR_nsURI)
               then SCHEMA_TYPE_XDR
               else if xmlStrEqual (Some (node_name root)) (Some XSD_schema) \<and>
                       xmlStrEqual (href ns) (Some XSD_nsURI)
               then SCHEMA_TYPE_XSD
               else SCHEMA_TYPE_INVALID))"

text \<open>
  The three constructors. \<^verbatim>\<open>heap_alloc\<close> takes the next position of the heap; a
  constructor that fails frees the struct again and returns NULL. Whether libxml2 can
  create a parser context and compile is the collaborators' answer. A compiled schema
  and its document get fresh libxml2 addresses; for a schema compiled from a document the
  schema's document is the deep copy made by \<^verbatim>\<open>xmlCopyDoc\<close>.
\<close>

definition cache_entry_from_url ::
  "collaborators \<Rightarrow> xmlChars \<Rightarrow> state \<Rightarrow> cache_entry_ptr option \<times> state" where
  "cache_entry_from_url X url s =
     (let entry = length (heap s) in
      if xmlSchemaNewParserCtxt X url then
        (if xmlSchemaParse_url X url then
           (let sch = xml_next s; d = xml_next s + 1 in
            (Some entry,
             s\<lparr>heap := heap s @
                  [Some \<lparr>type = SCHEMA_TYPE_XSD, schema = Some sch, doc = d, ref = 0\<rparr>],
               xml_next := xml_next s + 2,
               calls := calls s @ [Xmldoc_init d CLSID_DOMDocument40, Xmldoc_add_ref d]\<rparr>))
         else
           (None, s\<lparr>heap := heap s @ [None], calls := calls s @ [Heap_free entry]\<rparr>))
      else
        (None, s\<lparr>heap := heap s @ [None], calls := calls s @ [Heap_free entry]\<rparr>))"

definition cache_entry_from_xsd_doc ::
  "collaborators \<Rightarrow> xmlDoc \<Rightarrow> state \<Rightarrow> cache_entry_ptr option \<times> state" where
  "cache_entry_from_xsd_doc X d s =
     (let entry = length (heap s); new_doc = xml_next s in
      if xmlSchemaParse_doc X d then
        (let sch = xml_next s + 1 in
         (Some entry,
          s\<lparr>heap := heap s @
               [Some \<lparr>type = SCHEMA_TYPE_XSD, schema = Some sch, doc = new_doc, ref = 0\<rparr>],
            xml_next := xml_next s + 2,
            calls := calls s @
               [Xmldoc_init new_doc CLSID_DOMDocument40, Xmldoc_add_ref new_doc]\<rparr>))
      else
        (None,
         s\<lparr>heap := heap s @ [None],
           xml_next := xml_next s + 1,
           calls := calls s @ [XmlFreeDoc new_doc, Heap_free entry]\<rparr>))"

definition cache_entry_from_xdr_doc ::
  "collaborators \<Rightarrow> xmlDoc \<Rightarrow> state \<Rightarrow> cache_entry_ptr option \<times> state" where
  "cache_entry_from_xdr_doc X d s =
     (let entry = length (heap s); new_doc = xml_next s in
      (Some entry,
       s\<lparr>heap := heap s @
            [Some \<lparr>type = SCHEMA_TYPE_XDR, schema = None, doc = new_doc, ref = 0\<rparr>],
         xml_next := xml_next s + 1,
         calls := calls s @
            [Xmldoc_init new_doc CLSID_DOMDocument30, Xmldoc_add_ref new_doc]\<rparr>))"

subsection \<open>The arguments of \<^verbatim>\<open>add\<close>\<close>

text \<open>
  A COM object as \<^verbatim>\<open>schema_cache_add\<close> reads it. \<open>QueryInterface_IXMLDOMNode\<close> is the
  node interface it answers with (\<open>None\<close>: the out pointer stays NULL).
  \<open>xmlNodePtr_from_domnode\<close> is what the helper of node.c yields for the node when asked
  for \<^verbatim>\<open>XML_DOCUMENT_NODE\<close> (\<open>None\<close>: NULL), and \<open>target_doc\<close> is the \<^verbatim>\<open>doc\<close> field of
  that libxml2 node (\<open>None\<close>: NULL).
\<close>

datatype domnode_target = Target (target_doc: "xmlDoc option")

datatype IXMLDOMNode = IXMLDOMNode (xmlNodePtr_from_domnode: "domnode_target option")

datatype IDispatch = IDispatch (QueryInterface_IXMLDOMNode: "IXMLDOMNode option")

datatype VARIANT = VT_NULL | VT_BSTR BSTR | VT_DISPATCH "IDispatch option" | VT_OTHER nat

subsection \<open>The collection\<close>

definition SchemaCache_create :: "HRESULT \<times> schema_cache" where
  "SchemaCache_create = (S_OK, \<lparr>cache = xmlHashCreate DEFAULT_HASHTABLE_SIZE, sc_ref = 1\<rparr>)"

text \<open>
  Lines 374-386 and 424-436 of schema.c are the same code: a NULL entry is
  \<^verbatim>\<open>E_FAIL\<close>; otherwise the entry gets its reference, the entry stored under the name is
  removed through \<^verbatim>\<open>cache_free\<close>, and the new one is added.
\<close>

definition cache_replace ::
  "collaborators \<Rightarrow> schema_cache \<Rightarrow> xmlChars \<Rightarrow> cache_entry_ptr option \<Rightarrow> state
     \<Rightarrow> fault + (HRESULT \<times> schema_cache \<times> state)" where
  "cache_replace X This name entry s =
     (case entry of
        None \<Rightarrow> Inr (E_FAIL, This, s)
      | Some e \<Rightarrow>
          (case cache_entry_add_ref e s of
             Inl flt \<Rightarrow> Inl flt
           | Inr (_, s1) \<Rightarrow>
               (case xmlHashRemoveEntry X (cache This) name cache_free s1 of
                  Inl flt \<Rightarrow> Inl flt
                | Inr (_, t1, s2) \<Rightarrow>
                    Inr (S_OK, This\<lparr>cache := snd (xmlHashAddEntry X t1 name e)\<rparr>, s2))))"

definition schema_cache_add ::
  "collaborators \<Rightarrow> schema_cache \<Rightarrow> BSTR \<Rightarrow> VARIANT \<Rightarrow> state
     \<Rightarrow> fault + (HRESULT \<times> schema_cache \<times> state)" where
  "schema_cache_add X This uri var s =
     (let name = xmlChar_from_wchar X uri in
      case var of
        VT_NULL \<Rightarrow>
          (case xmlHashRemoveEntry X (cache This) name cache_free s of
             Inl flt \<Rightarrow> Inl flt
           | Inr (_, t1, s1) \<Rightarrow> Inr (S_OK, This\<lparr>cache := t1\<rparr>, s1))
      | VT_BSTR b \<Rightarrow>
          (let url = xmlChar_from_wchar X b;
               (entry, s1) = cache_entry_from_url X url s
           in cache_replace X This name entry s1)
      | VT_DISPATCH pdisp \<Rightarrow>
          (case pdisp of
             None \<Rightarrow> Inl NullDeref
           | Some disp \<Rightarrow>
               (case QueryInterface_IXMLDOMNode disp of
                  None \<Rightarrow> Inl NullDeref
                | Some domnode \<Rightarrow>
                    (case xmlNodePtr_from_domnode domnode of
                       None \<Rightarrow> Inl NullDeref
                     | Some node \<Rightarrow>
                         (case target_doc node of
                            None \<Rightarrow>
                              Inr (E_INVALIDARG, This,
                                   s\<lparr>calls := calls s @ [IXMLDOMNode_Release]\<rparr>)
                          | Some d \<Rightarrow>
                              (let ty = schema_type_from_xmlDocPtr d;
                                   (entry, s1) =
                                     (if ty = SCHEMA_TYPE_XSD then cache_entry_from_xsd_doc X d s
                                      else if ty = SCHEMA_TYPE_XDR then cache_entry_from_xdr_doc X d s
                                      else (None, s));
                                   s2 = s1\<lparr>calls := calls s1 @ [IXMLDOMNode_Release]\<rparr>
                               in cache_replace X This name entry s2)))))
      | VT_OTHER vt \<Rightarrow> Inr (E_INVALIDARG, This, s))"

text \<open>
  An out pointer is an option: \<open>None\<close> is the NULL pointer, \<open>Some v\<close> points to a slot that
  holds \<open>v\<close>; the slot's value after the call is returned beside the \<^verbatim>\<open>HRESULT\<close>.
\<close>

definition schema_cache_get ::
  "collaborators \<Rightarrow> schema_cache \<Rightarrow> BSTR \<Rightarrow> nat option option \<Rightarrow> state
     \<Rightarrow> fault + (HRESULT \<times> nat option option \<times> state)" where
  "schema_cache_get X This uri node s =
     (case node of
        None \<Rightarrow> Inr (E_POINTER, None, s)
      | Some old \<Rightarrow>
          (case xmlHashLookup X (cache This) (xmlChar_from_wchar X uri) of
             Some entry \<Rightarrow>
               (case deref s entry of
                  None \<Rightarrow> Inl UseAfterFree
                | Some e \<Rightarrow>
                    Inr (fst (DOMDocument_create_from_xmldoc X (doc e) old),
                         Some (snd (DOMDocument_create_from_xmldoc X (doc e) old)),
                         s\<lparr>calls := calls s @ [DOMDocument_create (doc e)]\<rparr>))
           | None \<Rightarrow> Inr (S_OK, Some None, s)))"

definition schema_cache_remove ::
  "collaborators \<Rightarrow> schema_cache \<Rightarrow> BSTR \<Rightarrow> state \<Rightarrow> fault + (HRESULT \<times> schema_cache \<times> state)" where
  "schema_cache_remove X This uri s =
     (let name = xmlChar_from_wchar X uri in
      case xmlHashRemoveEntry X (cache This) name cache_free s of
        Inl flt \<Rightarrow> Inl flt
      | Inr (_, t1, s1) \<Rightarrow> Inr (S_OK, This\<lparr>cache := t1\<rparr>, s1))"

definition schema_cache_get_length :: "schema_cache \<Rightarrow> LONG option \<Rightarrow> HRESULT \<times> LONG option" where
  "schema_cache_get_length This len =
     (case len of
        None \<Rightarrow> (E_POINTER, None)
      | Some _ \<Rightarrow> (S_OK, Some (word_of_int (xmlHashSize (cache This)))))"

definition cache_index ::
  "collaborators \<Rightarrow> cache_entry_ptr \<Rightarrow> cache_index_data \<Rightarrow> xmlChars \<Rightarrow> cache_index_data" where
  "cache_index X data index_data name =
     (if index index_data = 0
      then index_data\<lparr>index := index index_data - 1, out := bstr_from_xmlChar X name\<rparr>
      else index_data\<lparr>index := index index_data - 1\<rparr>)"

definition schema_cache_get_namespaceURI ::
  "collaborators \<Rightarrow> schema_cache \<Rightarrow> LONG \<Rightarrow> BSTR option \<Rightarrow> HRESULT \<times> BSTR option" where
  "schema_cache_get_namespaceURI X This idx len =
     (case len of
        None \<Rightarrow> (E_POINTER, None)
      | Some _ \<Rightarrow>
          if xmlHashSize (cache This) \<le> sint idx then (E_FAIL, Some None)
          else (S_OK,
                Some (out (xmlHashScan (cache This) (cache_index X) \<lparr>index = idx, out = None\<rparr>))))"

text \<open>
  The scanner of \<^verbatim>\<open>addCollection\<close>: \<open>dest\<close> is the receiving collection, with the process
  state the scanner works on.
\<close>

definition cache_copy ::
  "collaborators \<Rightarrow> cache_entry_ptr \<Rightarrow> fault + (schema_cache \<times> state) \<Rightarrow> xmlChars
     \<Rightarrow> fault + (schema_cache \<times> state)" where
  "cache_copy X data dest name =
     (case dest of
        Inl flt \<Rightarrow> Inl flt
      | Inr (This, s) \<Rightarrow>
          (case xmlHashLookup X (cache This) name of
             Some _ \<Rightarrow> Inr (This, s)
           | None \<Rightarrow>
               (case cache_entry_add_ref data s of
                  Inl flt \<Rightarrow> Inl flt
                | Inr (_, s1) \<Rightarrow>
                    Inr (This\<lparr>cache := snd (xmlHashAddEntry X (cache This) name data)\<rparr>, s1))))"

definition schema_cache_addCollection ::
  "collaborators \<Rightarrow> schema_cache \<Rightarrow> schema_cache option \<Rightarrow> state
     \<Rightarrow> fault + (HRESULT \<times> schema_cache \<times> state)" where
  "schema_cache_addCollection X This otherCollection s =
     (case otherCollection of
        None \<Rightarrow> Inr (E_POINTER, This, s)
      | Some That \<Rightarrow>
          (case xmlHashScan (cache That) (cache_copy X) (Inr (This, s)) of
             Inl flt \<Rightarrow> Inl flt
           | Inr (This', s') \<Rightarrow> Inr (S_OK, This', s')))"

section \<open>Invariants and auxiliary notions\<close>

text \<open>
  The invariant of the hash table: every chain holds a name at most once, and every pair
  lies in the bucket of its name. \<^verbatim>\<open>xmlHashCreate\<close> establishes it; \<^verbatim>\<open>xmlHashAddEntry\<close>
  and \<^verbatim>\<open>xmlHashRemoveEntry\<close> keep it.
\<close>

definition table_inv :: "collaborators \<Rightarrow> 'a xmlHashTable \<Rightarrow> bool" where
  "table_inv X t \<longleftrightarrow>
     t \<noteq> [] \<and>
     (\<forall>i<length t. distinct (map fst (t ! i)) \<and> (\<forall>e\<in>set (t ! i). bucket X t (fst e) = i))"

text \<open>
  A pointer is live when it points to an allocated entry that \<^verbatim>\<open>cache_entry_release\<close>
  can tear down: an XSD entry has its compiled schema.
\<close>

definition entry_live :: "state \<Rightarrow> cache_entry_ptr \<Rightarrow> bool" where
  "entry_live s p =
     (case deref s p of
        None \<Rightarrow> False
      | Some e \<Rightarrow> type e = SCHEMA_TYPE_XSD \<longrightarrow> schema e \<noteq> None)"

text \<open>The entry a collection stores under a name, if any, is live.\<close>

definition stored_live :: "collaborators \<Rightarrow> schema_cache \<Rightarrow> xmlChars \<Rightarrow> state \<Rightarrow> bool" where
  "stored_live X This name s =
     (case xmlHashLookup X (cache This) name of None \<Rightarrow> True | Some p \<Rightarrow> entry_live s p)"

text \<open>
  The teardown as the specification orders it: release the document reference, then, for
  an XSD entry only, detach the schema's document pointer and free the compiled schema,
  then free the entry struct.
\<close>

definition teardown_order :: "cache_entry_ptr \<Rightarrow> cache_entry \<Rightarrow> call list" where
  "teardown_order p e =
     [Xmldoc_release (doc e)] @
     (if type e = SCHEMA_TYPE_XSD
      then (case schema e of None \<Rightarrow> [] | Some sch \<Rightarrow> [Schema_doc_NULL sch, XmlSchemaFree sch])
      else []) @
     [Heap_free p]"

text \<open>Every entry of a collection points to an allocated struct.\<close>

definition entries_allocated :: "schema_cache \<Rightarrow> state \<Rightarrow> bool" where
  "entries_allocated That s = list_all (\<lambda>e. deref s (snd e) \<noteq> None) (concat (cache That))"

text \<open>
  How many pairs of the scanned list \<open>xs\<close> hold the entry \<open>p\<close> under a name that the
  receiving collection does not have: the references \<^verbatim>\<open>addCollection\<close> adds to \<open>p\<close>.
\<close>

definition copied :: "collaborators \<Rightarrow> schema_cache \<Rightarrow> (xmlChars \<times> cache_entry_ptr) list
    \<Rightarrow> cache_entry_ptr \<Rightarrow> nat" where
  "copied X This xs p =
     length (filter (\<lambda>e. snd e = p \<and> xmlHashLookup X (cache This) (fst e) = None) xs)"

subsection \<open>A concrete run\<close>

text \<open>
  Concrete collaborators and states, on which the theorems below are instantiated: a
  collection created empty, the same after \<^verbatim>\<open>add("u", url)\<close> (entry 0), and after a second
  \<^verbatim>\<open>add("u", document)\<close> (entry 1, entry 0 freed).
\<close>

definition demo_collaborators :: collaborators where
  "demo_collaborators =
     \<lparr>xmlHashComputeKey = length,
      xmlChar_from_wchar = (\<lambda>b. case b of None \<Rightarrow> [] | Some ws \<Rightarrow> map (\<lambda>_. CHR ''u'') ws),
      bstr_from_xmlChar = (\<lambda>n. Some (map (\<lambda>_. 117) n)),
      xmlSchemaNewParserCtxt = (\<lambda>_. True),
      xmlSchemaParse_url = (\<lambda>u. u \<noteq> []),
      xmlSchemaParse_doc = (\<lambda>_. True),
      DOMDocument_create_from_xmldoc = (\<lambda>d old. (S_OK, Some d))\<rparr>"

definition demo_state :: state where
  "demo_state = \<lparr>heap = [], xml_next = 0, calls = []\<rparr>"

definition demo_empty :: schema_cache where
  "demo_empty = snd SchemaCache_create"

definition demo_xsd_doc :: xmlDoc where
  "demo_xsd_doc =
     XmlDoc [XmlNode XML_COMMENT_NODE ''c'' None [],
             XmlNode XML_ELEMENT_NODE ''schema''
               (Some \<lparr>href = Some ''http://www.w3.org/2001/XMLSchema'', prefix = Some ''xs''\<rparr>) []]"

definition demo_url :: VARIANT where
  "demo_url = VT_BSTR (Some [102, 105])"

definition demo_dispatch :: VARIANT where
  "demo_dispatch = VT_DISPATCH (Some (IDispatch (Some (IXMLDOMNode (Some (Target (Some demo_xsd_doc)))))))"

definition demo_entry_A :: cache_entry where
  "demo_entry_A = \<lparr>type = SCHEMA_TYPE_XSD, schema = Some 0, doc = 1, ref = 1\<rparr>"

definition demo_entry_B :: cache_entry where
  "demo_entry_B = \<lparr>type = SCHEMA_TYPE_XSD, schema = Some 3, doc = 2, ref = 1\<rparr>"

definition demo_cache_A :: schema_cache where
  "demo_cache_A = \<lparr>cache = (replicate 31 [])[1 := [(''u'', 0)]], sc_ref = 1\<rparr>"

definition demo_state_A :: state where
  "demo_state_A =
     \<lparr>heap = [Some demo_entry_A], xml_next = 2,
      calls = [Xmldoc_init 1 CLSID_DOMDocument40, Xmldoc_add_ref 1]\<rparr>"

definition demo_cache_B :: schema_cache where
  "demo_cache_B = \<lparr>cache = (replicate 31 [])[1 := [(''u'', 1)]], sc_ref = 1\<rparr>"

definition demo_state_B :: state where
  "demo_state_B =
     \<lparr>heap = [None, Some demo_entry_B], xml_next = 4,
      calls = [Xmldoc_init 1 CLSID_DOMDocument40, Xmldoc_add_ref 1,
               Xmldoc_init 2 CLSID_DOMDocument40, Xmldoc_add_ref 2, IXMLDOMNode_Release,
               Xmldoc_release 1, Schema_doc_NULL 0, XmlSchemaFree 0, Heap_free 0]\<rparr>"

definition demo_state_removed :: state where
  "demo_state_removed =
     \<lparr>heap = [None], xml_next = 2,
      calls = [Xmldoc_init 1 CLSID_DOMDocument40, Xmldoc_add_ref 1,
               Xmldoc_release 1, Schema_doc_NULL 0, XmlSchemaFree 0, Heap_free 0]\<rparr>"

section \<open>Properties\<close>

subsection \<open>The hash table\<close>

lemma table_inv_create: "0 < n \<Longrightarrow> table_inv X (xmlHashCreate n)"
  by (auto simp: table_inv_def xmlHashCreate_def)

lemma bucket_less: "t \<noteq> [] \<Longrightarrow> bucket X t k < length t"
  by (simp add: bucket_def)

lemma in_concat_nth: "e \<in> set (concat t) \<longleftrightarrow> (\<exists>i<length t. e \<in> set (t ! i))"
proof
  assume "e \<in> set (concat t)"
  then obtain c where "c \<in> set t" "e \<in> set c" by auto
  then show "\<exists>i<length t. e \<in> set (t ! i)" by (metis in_set_conv_nth)
next
  assume "\<exists>i<length t. e \<in> set (t ! i)"
  then show "e \<in> set (concat t)" by auto
qed

lemma distinct_concat_keyed:
  "(\<forall>i<length t. distinct (map fst (t ! i)) \<and> (\<forall>e\<in>set (t ! i). g (fst e) = i))
   \<Longrightarrow> distinct (map fst (concat t))"
proof (induction t rule: rev_induct)
  case Nil
  then show ?case by simp
next
  case (snoc c t)
  have old: "\<forall>i<length t. distinct (map fst (t ! i)) \<and> (\<forall>e\<in>set (t ! i). g (fst e) = i)"
  proof (intro allI impI)
    fix i assume "i < length t"
    with snoc.prems[rule_format, of i] show "distinct (map fst (t ! i)) \<and> (\<forall>e\<in>set (t ! i). g (fst e) = i)"
      by (simp add: nth_append)
  qed
  have last: "distinct (map fst c) \<and> (\<forall>e\<in>set c. g (fst e) = length t)"
    using snoc.prems[rule_format, of "length t"] by simp
  have "g (fst e) < length t" if "e \<in> set (concat t)" for e
  proof -
    from that obtain i where "i < length t" "e \<in> set (t ! i)"
      using in_concat_nth[of e t] by blast
    with old show ?thesis by auto
  qed
  with last have "fst ` set (concat t) \<inter> fst ` set c = {}"
    by fastforce
  with snoc.IH[OF old] last show ?case by simp
qed

lemma table_inv_distinct: "table_inv X t \<Longrightarrow> distinct (map fst (concat t))"
  unfolding table_inv_def by (rule distinct_concat_keyed[where g = "bucket X t"]) blast

lemma lookup_iff:
  assumes "table_inv X t"
  shows "xmlHashLookup X t k = Some v \<longleftrightarrow> (k, v) \<in> set (concat t)"
proof
  assume "xmlHashLookup X t k = Some v"
  then have "(k, v) \<in> set (t ! bucket X t k)"
    by (simp add: xmlHashLookup_def map_of_SomeD)
  moreover have "bucket X t k < length t"
    using assms by (simp add: table_inv_def bucket_less)
  ultimately show "(k, v) \<in> set (concat t)" by auto
next
  assume "(k, v) \<in> set (concat t)"
  then obtain i where i: "i < length t" "(k, v) \<in> set (t ! i)"
    using in_concat_nth[of "(k, v)" t] by blast
  with assms have "bucket X t k = i" "distinct (map fst (t ! i))"
    by (force simp: table_inv_def)+
  with i show "xmlHashLookup X t k = Some v"
    by (simp add: xmlHashLookup_def)
qed

lemma lookup_map_of: "table_inv X t \<Longrightarrow> xmlHashLookup X t k = map_of (concat t) k"
  by (metis lookup_iff table_inv_distinct map_of_eq_Some_iff not_Some_eq)

lemma chain_unlink_keys: "set (chain_unlink n c) \<subseteq> set c"
  by (induction c) auto

lemma chain_unlink_distinct: "distinct (map fst c) \<Longrightarrow> distinct (map fst (chain_unlink n c))"
  using chain_unlink_keys by (induction c) force+

lemma chain_unlink_map_of:
  "distinct (map fst c) \<Longrightarrow> map_of (chain_unlink n c) k = (if k = n then None else map_of c k)"
  by (induction c) (auto simp: map_of_eq_None_iff rev_image_eqI)

lemma chain_unlink_absent: "map_of c n = None \<Longrightarrow> chain_unlink n c = c"
  by (induction c) (auto split: if_splits)


lemma bucket_update [simp]: "bucket X (t[i := c]) k = bucket X t k"
  by (simp add: bucket_def)

lemma unlink_inv:
  assumes "table_inv X t"
  shows "table_inv X (t[bucket X t n := chain_unlink n (t ! bucket X t n)])"
  unfolding table_inv_def
proof (intro conjI allI impI)
  show "t[bucket X t n := chain_unlink n (t ! bucket X t n)] \<noteq> []"
    using assms by (simp add: table_inv_def)
next
  fix i assume "i < length (t[bucket X t n := chain_unlink n (t ! bucket X t n)])"
  then have i: "i < length t" by simp
  with assms have d: "distinct (map fst (t ! i))" and b: "\<forall>e\<in>set (t ! i). bucket X t (fst e) = i"
    by (simp_all add: table_inv_def)
  show "distinct (map fst (t[bucket X t n := chain_unlink n (t ! bucket X t n)] ! i))"
    using i d by (cases "i = bucket X t n") (simp_all add: chain_unlink_distinct)
  show "\<forall>e\<in>set (t[bucket X t n := chain_unlink n (t ! bucket X t n)] ! i).
          bucket X (t[bucket X t n := chain_unlink n (t ! bucket X t n)]) (fst e) = i"
    using i b chain_unlink_keys[of n "t ! i"] by (cases "i = bucket X t n") auto
qed

lemma unlink_lookup:
  assumes "table_inv X t"
  shows "xmlHashLookup X (t[bucket X t n := chain_unlink n (t ! bucket X t n)]) k =
           (if k = n then None else xmlHashLookup X t k)"
proof -
  have b: "bucket X t n < length t" "bucket X t k < length t"
    using assms by (simp_all add: table_inv_def bucket_less)
  with assms have d: "distinct (map fst (t ! bucket X t n))"
    by (simp add: table_inv_def)
  show ?thesis
    using b d by (cases "bucket X t k = bucket X t n")
      (auto simp: xmlHashLookup_def chain_unlink_map_of)
qed

lemma add_inv:
  assumes "table_inv X t" and "xmlHashLookup X t n = None"
  shows "table_inv X (t[bucket X t n := t ! bucket X t n @ [(n, v)]])"
  unfolding table_inv_def
proof (intro conjI allI impI)
  show "t[bucket X t n := t ! bucket X t n @ [(n, v)]] \<noteq> []"
    using assms by (simp add: table_inv_def)
next
  fix i assume "i < length (t[bucket X t n := t ! bucket X t n @ [(n, v)]])"
  then have i: "i < length t" by simp
  with assms have d: "distinct (map fst (t ! i))" and b: "\<forall>e\<in>set (t ! i). bucket X t (fst e) = i"
    by (simp_all add: table_inv_def)
  have fresh: "n \<notin> fst ` set (t ! bucket X t n)"
    using assms(2) by (simp add: xmlHashLookup_def map_of_eq_None_iff)
  show "distinct (map fst (t[bucket X t n := t ! bucket X t n @ [(n, v)]] ! i))"
    using i d fresh by (cases "i = bucket X t n") simp_all
  show "\<forall>e\<in>set (t[bucket X t n := t ! bucket X t n @ [(n, v)]] ! i).
          bucket X (t[bucket X t n := t ! bucket X t n @ [(n, v)]]) (fst e) = i"
    using i b by (cases "i = bucket X t n") auto
qed

lemma add_lookup:
  assumes "table_inv X t" and "xmlHashLookup X t n = None"
  shows "xmlHashLookup X (t[bucket X t n := t ! bucket X t n @ [(n, v)]]) k =
           (if k = n then Some v else xmlHashLookup X t k)"
proof -
  have b: "bucket X t n < length t" "bucket X t k < length t"
    using assms by (simp_all add: table_inv_def bucket_less)
  have fresh: "map_of (t ! bucket X t n) n = None"
    using assms(2) by (simp add: xmlHashLookup_def)
  show ?thesis
    using b fresh by (cases "bucket X t k = bucket X t n")
      (auto simp: xmlHashLookup_def map_add_def split: option.splits)
qed

lemma unlink_absent:
  "xmlHashLookup X t n = None \<Longrightarrow> t[bucket X t n := chain_unlink n (t ! bucket X t n)] = t"
  by (simp add: xmlHashLookup_def chain_unlink_absent)

subsection \<open>Enumeration by index\<close>

lemma unat_LONG_minus_one: "unat (- 1 :: LONG) = 2 ^ 32 - 1"
  by (simp add: unsigned_minus_1_eq_mask mask_eq_exp_minus_1)

lemma unat_LONG_nonneg:
  assumes "0 \<le> sint (idx::LONG)"
  shows "unat idx = nat (sint idx)"
proof -
  have "sint idx < 2 ^ 32" using sint_lt[of idx] by simp
  with assms have "take_bit 32 (sint idx) = sint idx" by (simp add: take_bit_int_eq_self)
  then have "uint idx = sint idx" using uint_sint[of idx] by simp
  then have "nat (uint idx) = nat (sint idx)" by (simp only:)
  then show ?thesis by simp
qed

lemma unat_LONG_negative:
  assumes "sint (idx::LONG) < 0"
  shows "2 ^ 31 \<le> unat idx"
proof -
  have lo: "- (2 ^ 31) \<le> sint idx" using sint_ge[of idx] by simp
  have "sint idx mod 2 ^ 32 = (sint idx + 2 ^ 32) mod 2 ^ 32" by simp
  also have "\<dots> = sint idx + 2 ^ 32" using lo assms by (intro mod_pos_pos_trivial) simp_all
  finally have "uint idx = sint idx + 2 ^ 32"
    using uint_sint[of idx] by (simp add: take_bit_eq_mod)
  with lo have "(2 ^ 31 :: int) \<le> uint idx" by simp
  then have "nat (2 ^ 31) \<le> nat (uint idx)" by (rule nat_mono)
  then show ?thesis by simp
qed

lemma scan_index_miss:
  "length xs \<le> unat i \<Longrightarrow>
   out (fold (\<lambda>e d. cache_index X (snd e) d (fst e)) xs \<lparr>index = i, out = b\<rparr>) = b"
proof (induction xs arbitrary: i)
  case Nil
  then show ?case by simp
next
  case (Cons x xs)
  then have nz: "i \<noteq> 0" by (auto simp: unat_eq_zero)
  then have "unat (i - 1) = unat i - 1"
    by (simp add: unat_minus_one)
  with Cons.prems have "length xs \<le> unat (i - 1)" by simp
  from Cons.IH[OF this] nz show ?case by (simp add: cache_index_def)
qed

lemma scan_index_hit:
  "unat (i :: LONG) < length xs \<Longrightarrow> length xs \<le> 2 ^ 32 \<Longrightarrow>
   out (fold (\<lambda>e d. cache_index X (snd e) d (fst e)) xs \<lparr>index = i, out = b\<rparr>) =
     bstr_from_xmlChar X (fst (xs ! unat i))"
proof (induction xs arbitrary: i b)
  case Nil
  then show ?case by simp
next
  case (Cons x xs)
  show ?case
  proof (cases "i = 0")
    case True
    from Cons.prems have "length xs \<le> unat (0 - 1 :: LONG)"
      by (simp add: unat_LONG_minus_one)
    from scan_index_miss[OF this] True show ?thesis by (simp add: cache_index_def)
  next
    case False
    then have u: "unat (i - 1) = unat i - 1" by (simp add: unat_minus_one)
    from False have pos: "0 < unat i" by (simp add: unat_gt_0)
    with Cons.prems u have "unat (i - 1) < length xs" "length xs \<le> 2 ^ 32" by simp_all
    from Cons.IH[OF this] False u pos show ?thesis by (simp add: cache_index_def)
  qed
qed

lemma get_namespaceURI_in_range:
  assumes "0 \<le> sint idx" and "sint idx < xmlHashSize (cache This)"
    and "xmlHashSize (cache This) < 2 ^ 31"
  shows "schema_cache_get_namespaceURI X This idx (Some old) =
           (S_OK, Some (bstr_from_xmlChar X (fst (concat (cache This) ! nat (sint idx)))))"
proof -
  have u: "unat idx = nat (sint idx)"
    using assms(1) by (rule unat_LONG_nonneg)
  with assms have "unat idx < length (concat (cache This))" "length (concat (cache This)) \<le> 2 ^ 32"
    by (simp_all add: xmlHashSize_def)
  from scan_index_hit[OF this] assms(2) u show ?thesis
    by (simp add: schema_cache_get_namespaceURI_def xmlHashScan_def)
qed

lemma get_namespaceURI_negative:
  assumes "sint idx < 0" and "xmlHashSize (cache This) < 2 ^ 31"
  shows "schema_cache_get_namespaceURI X This idx (Some old) = (S_OK, Some None)"
proof -
  have "2 ^ 31 \<le> unat idx"
    using assms(1) by (rule unat_LONG_negative)
  with assms(2) have "length (concat (cache This)) \<le> unat idx"
    by (simp add: xmlHashSize_def)
  from scan_index_miss[OF this] assms(1) show ?thesis
    by (simp add: schema_cache_get_namespaceURI_def xmlHashScan_def xmlHashSize_def)
qed

lemma get_namespaceURI_too_big:
  "xmlHashSize (cache This) \<le> sint idx \<Longrightarrow>
   schema_cache_get_namespaceURI X This idx (Some old) = (E_FAIL, Some None)"
  by (simp add: schema_cache_get_namespaceURI_def)

subsection \<open>Reference counting\<close>

lemma deref_update:
  "deref (s\<lparr>heap := (heap s)[p := v]\<rparr>) q = (if q = p \<and> p < length (heap s) then v else deref s q)"
  by (simp add: deref_def)

lemma deref_Some_less: "deref s p = Some e \<Longrightarrow> p < length (heap s)"
  by (simp add: deref_def split: if_splits)

lemma deref_calls [simp]: "deref (s\<lparr>calls := c\<rparr>) p = deref s p"
  by (simp add: deref_def)

lemma deref_xml_next [simp]: "deref (s\<lparr>xml_next := c\<rparr>) p = deref s p"
  by (simp add: deref_def)

lemma LONG_pred_zero: "(r :: LONG) - 1 = 0 \<longleftrightarrow> r = 1"
  by auto

lemma add_ref_Some:
  "deref s p = Some e \<Longrightarrow>
   cache_entry_add_ref p s = Inr (ref e + 1, s\<lparr>heap := (heap s)[p := Some (e\<lparr>ref := ref e + 1\<rparr>)]\<rparr>)"
  by (simp add: cache_entry_add_ref_def)

lemma release_last_xsd:
  "deref s p = Some e \<Longrightarrow> ref e = 1 \<Longrightarrow> type e = SCHEMA_TYPE_XSD \<Longrightarrow> schema e = Some sch \<Longrightarrow>
   cache_entry_release p s =
     Inr (0, s\<lparr>heap := (heap s)[p := None],
               calls := calls s @ [Xmldoc_release (doc e), Schema_doc_NULL sch,
                                   XmlSchemaFree sch, Heap_free p]\<rparr>)"
  by (simp add: cache_entry_release_def)

lemma release_last_other:
  "deref s p = Some e \<Longrightarrow> ref e = 1 \<Longrightarrow> type e \<noteq> SCHEMA_TYPE_XSD \<Longrightarrow>
   cache_entry_release p s =
     Inr (0, s\<lparr>heap := (heap s)[p := None],
               calls := calls s @ [Xmldoc_release (doc e), Heap_free p]\<rparr>)"
  by (simp add: cache_entry_release_def)

lemma release_shared:
  "deref s p = Some e \<Longrightarrow> ref e \<noteq> 1 \<Longrightarrow>
   cache_entry_release p s =
     Inr (ref e - 1, s\<lparr>heap := (heap s)[p := Some (e\<lparr>ref := ref e - 1\<rparr>)]\<rparr>)"
  by (simp add: cache_entry_release_def LONG_pred_zero)

lemma release_freed: "deref s p = None \<Longrightarrow> cache_entry_release p s = Inl UseAfterFree"
  by (simp add: cache_entry_release_def)

text \<open>A live entry can be released: the heap keeps its size, other entries are untouched.\<close>

lemma release_live:
  assumes "entry_live s p"
  shows "\<exists>r s'. cache_entry_release p s = Inr (r, s') \<and> length (heap s') = length (heap s) \<and>
           xml_next s' = xml_next s \<and> (\<forall>q. q \<noteq> p \<longrightarrow> deref s' q = deref s q)"
proof -
  from assms obtain e where e: "deref s p = Some e" and sch: "type e = SCHEMA_TYPE_XSD \<longrightarrow> schema e \<noteq> None"
    by (auto simp: entry_live_def split: option.splits)
  show ?thesis
  proof (cases "ref e = 1")
    case False
    from release_shared[OF e False] show ?thesis by (simp add: deref_update)
  next
    case True
    show ?thesis
    proof (cases "type e = SCHEMA_TYPE_XSD")
      case False
      from release_last_other[OF e True False] show ?thesis by (simp add: deref_def)
    next
      case xsd: True
      with sch obtain sc where "schema e = Some sc" by auto
      from release_last_xsd[OF e True xsd this] show ?thesis by (simp add: deref_def)
    qed
  qed
qed

lemma remove_absent:
  "xmlHashLookup X t n = None \<Longrightarrow> xmlHashRemoveEntry X t n f s = Inr (- 1, t, s)"
  by (simp add: xmlHashRemoveEntry_def)

lemma remove_present:
  "xmlHashLookup X t n = Some p \<Longrightarrow> cache_entry_release p s = Inr (r, s') \<Longrightarrow>
   xmlHashRemoveEntry X t n cache_free s =
     Inr (0, t[bucket X t n := chain_unlink n (t ! bucket X t n)], s')"
  by (simp add: xmlHashRemoveEntry_def cache_free_def)

subsection \<open>Removal and replacement\<close>

lemma remove_result:
  assumes "stored_live X This (xmlChar_from_wchar X uri) s"
  shows "\<exists>s1. schema_cache_remove X This uri s =
           Inr (S_OK,
                This\<lparr>cache := (cache This)[bucket X (cache This) (xmlChar_from_wchar X uri) :=
                   chain_unlink (xmlChar_from_wchar X uri)
                     (cache This ! bucket X (cache This) (xmlChar_from_wchar X uri))]\<rparr>, s1) \<and>
           (case xmlHashLookup X (cache This) (xmlChar_from_wchar X uri) of
              None \<Rightarrow> s1 = s
            | Some p \<Rightarrow> \<exists>r. cache_entry_release p s = Inr (r, s1))"
proof (cases "xmlHashLookup X (cache This) (xmlChar_from_wchar X uri)")
  case None
  then show ?thesis
    by (simp add: schema_cache_remove_def remove_absent unlink_absent)
next
  case (Some p)
  with assms have "entry_live s p" by (simp add: stored_live_def)
  from release_live[OF this] obtain r s' where "cache_entry_release p s = Inr (r, s')" by blast
  with Some show ?thesis
    by (simp add: schema_cache_remove_def remove_present)
qed

lemma from_url_Some:
  assumes "cache_entry_from_url X url s = (Some q, sa)"
  shows "q = length (heap s) \<and>
         (\<exists>ent. heap sa = heap s @ [Some ent] \<and> ref ent = 0 \<and> type ent = SCHEMA_TYPE_XSD \<and>
            schema ent \<noteq> None \<and> xml_next s \<le> doc ent \<and> doc ent < xml_next sa \<and>
            calls sa = calls s @ [Xmldoc_init (doc ent) CLSID_DOMDocument40, Xmldoc_add_ref (doc ent)])"
  using assms by (auto simp: cache_entry_from_url_def Let_def split: if_splits)

lemma from_xsd_doc_Some:
  assumes "cache_entry_from_xsd_doc X d s = (Some q, sa)"
  shows "q = length (heap s) \<and>
         (\<exists>ent. heap sa = heap s @ [Some ent] \<and> ref ent = 0 \<and> type ent = SCHEMA_TYPE_XSD \<and>
            schema ent \<noteq> None \<and> xml_next s \<le> doc ent \<and> doc ent < xml_next sa \<and>
            calls sa = calls s @ [Xmldoc_init (doc ent) CLSID_DOMDocument40, Xmldoc_add_ref (doc ent)])"
  using assms by (auto simp: cache_entry_from_xsd_doc_def Let_def split: if_splits)

lemma from_xdr_doc_Some:
  assumes "cache_entry_from_xdr_doc X d s = (Some q, sa)"
  shows "q = length (heap s) \<and>
         (\<exists>ent. heap sa = heap s @ [Some ent] \<and> ref ent = 0 \<and> type ent = SCHEMA_TYPE_XDR \<and>
            schema ent = None \<and> xml_next s \<le> doc ent \<and> doc ent < xml_next sa \<and>
            calls sa = calls s @ [Xmldoc_init (doc ent) CLSID_DOMDocument30, Xmldoc_add_ref (doc ent)])"
  using assms by (auto simp: cache_entry_from_xdr_doc_def Let_def)

lemma cache_replace_NULL: "cache_replace X This name None s = Inr (E_FAIL, This, s)"
  by (simp add: cache_replace_def)

lemma cache_replace_not_NULL:
  "cache_replace X This name entry s = Inr (S_OK, This', s') \<Longrightarrow> entry \<noteq> None"
  by (cases entry) (simp_all add: cache_replace_def)

text \<open>
  A successful \<^verbatim>\<open>add\<close> of a URL or a document first builds a new entry at the next heap
  position, with count 0, and then runs the replacement on it.
\<close>

lemma add_success_shape:
  assumes "schema_cache_add X This uri var s = Inr (S_OK, This', s')" and "var \<noteq> VT_NULL"
  shows "\<exists>ent sa cs. heap sa = heap s @ [Some ent] \<and> ref ent = 0 \<and>
           (type ent = SCHEMA_TYPE_XSD \<longrightarrow> schema ent \<noteq> None) \<and>
           xml_next s \<le> doc ent \<and> doc ent < xml_next sa \<and> calls sa = calls s @ cs \<and>
           cache_replace X This (xmlChar_from_wchar X uri) (Some (length (heap s))) sa =
             Inr (S_OK, This', s')"
proof (cases var)
  case VT_NULL
  with assms show ?thesis by simp
next
  case (VT_BSTR b)
  obtain entry sa where c: "cache_entry_from_url X (xmlChar_from_wchar X b) s = (entry, sa)"
    by (cases "cache_entry_from_url X (xmlChar_from_wchar X b) s")
  with assms VT_BSTR have r: "cache_replace X This (xmlChar_from_wchar X uri) entry sa = Inr (S_OK, This', s')"
    by (simp add: schema_cache_add_def)
  then obtain q where "entry = Some q" using cache_replace_not_NULL by blast
  with c r from_url_Some[of X "xmlChar_from_wchar X b" s q sa] show ?thesis by auto
next
  case (VT_DISPATCH pdisp)
  with assms obtain d where
    run: "(let ty = schema_type_from_xmlDocPtr d;
              (entry, s1) =
                (if ty = SCHEMA_TYPE_XSD then cache_entry_from_xsd_doc X d s
                 else if ty = SCHEMA_TYPE_XDR then cache_entry_from_xdr_doc X d s
                 else (None, s));
              s2 = s1\<lparr>calls := calls s1 @ [IXMLDOMNode_Release]\<rparr>
          in cache_replace X This (xmlChar_from_wchar X uri) entry s2) = Inr (S_OK, This', s')"
    by (auto simp: schema_cache_add_def split: option.splits)
  show ?thesis
  proof (cases "schema_type_from_xmlDocPtr d")
    case SCHEMA_TYPE_INVALID
    with run show ?thesis by (simp add: cache_replace_NULL)
  next
    case SCHEMA_TYPE_XDR
    obtain entry sa where c: "cache_entry_from_xdr_doc X d s = (entry, sa)"
      by (cases "cache_entry_from_xdr_doc X d s")
    with run SCHEMA_TYPE_XDR have r: "cache_replace X This (xmlChar_from_wchar X uri) entry
        (sa\<lparr>calls := calls sa @ [IXMLDOMNode_Release]\<rparr>) = Inr (S_OK, This', s')"
      by simp
    then obtain q where "entry = Some q" using cache_replace_not_NULL by blast
    with c r from_xdr_doc_Some[of X d s q sa] show ?thesis
      by (intro exI[of _ "the (last (heap sa))"] exI[of _ "sa\<lparr>calls := calls sa @ [IXMLDOMNode_Release]\<rparr>"]) auto
  next
    case SCHEMA_TYPE_XSD
    obtain entry sa where c: "cache_entry_from_xsd_doc X d s = (entry, sa)"
      by (cases "cache_entry_from_xsd_doc X d s")
    with run SCHEMA_TYPE_XSD have r: "cache_replace X This (xmlChar_from_wchar X uri) entry
        (sa\<lparr>calls := calls sa @ [IXMLDOMNode_Release]\<rparr>) = Inr (S_OK, This', s')"
      by simp
    then obtain q where "entry = Some q" using cache_replace_not_NULL by blast
    with c r from_xsd_doc_Some[of X d s q sa] show ?thesis
      by (intro exI[of _ "the (last (heap sa))"] exI[of _ "sa\<lparr>calls := calls sa @ [IXMLDOMNode_Release]\<rparr>"]) auto
  qed
next
  case (VT_OTHER vt)
  with assms show ?thesis by (simp add: schema_cache_add_def)
qed

lemma add_entry_fresh:
  assumes "table_inv X t" and "xmlHashLookup X t n = None"
  shows "table_inv X (snd (xmlHashAddEntry X t n v)) \<and>
         (\<forall>k. xmlHashLookup X (snd (xmlHashAddEntry X t n v)) k =
                (if k = n then Some v else xmlHashLookup X t k))"
  using assms add_inv[OF assms, of v] add_lookup[OF assms, of v]
  by (simp add: xmlHashAddEntry_def)

lemma cache_replace_effect:
  assumes inv: "table_inv X (cache This)"
    and q: "deref s q = Some ent"
    and old: "case xmlHashLookup X (cache This) name of
                None \<Rightarrow> True | Some p \<Rightarrow> p \<noteq> q \<and> entry_live s p"
  shows "\<exists>This' s'.
           cache_replace X This name (Some q) s = Inr (S_OK, This', s') \<and>
           table_inv X (cache This') \<and>
           (\<forall>k. xmlHashLookup X (cache This') k =
                  (if k = name then Some q else xmlHashLookup X (cache This) k)) \<and>
           deref s' q = Some (ent\<lparr>ref := ref ent + 1\<rparr>) \<and>
           xml_next s' = xml_next s \<and> length (heap s') = length (heap s) \<and>
           (case xmlHashLookup X (cache This) name of
              None \<Rightarrow> s' = s\<lparr>heap := (heap s)[q := Some (ent\<lparr>ref := ref ent + 1\<rparr>)]\<rparr>
            | Some p \<Rightarrow>
                \<exists>r. cache_entry_release p (s\<lparr>heap := (heap s)[q := Some (ent\<lparr>ref := ref ent + 1\<rparr>)]\<rparr>) =
                      Inr (r, s'))"
proof -
  let ?s1 = "s\<lparr>heap := (heap s)[q := Some (ent\<lparr>ref := ref ent + 1\<rparr>)]\<rparr>"
  let ?t = "cache This"
  have ar: "cache_entry_add_ref q s = Inr (ref ent + 1, ?s1)"
    using q by (rule add_ref_Some)
  have q1: "deref ?s1 q = Some (ent\<lparr>ref := ref ent + 1\<rparr>)"
    using deref_Some_less[OF q] by (simp add: deref_update)
  show ?thesis
  proof (cases "xmlHashLookup X ?t name")
    case None
    from add_entry_fresh[OF inv None, of q] None ar q1 show ?thesis
      by (simp add: cache_replace_def remove_absent)
  next
    case (Some p)
    with old have pq: "p \<noteq> q" and lp: "entry_live s p" by simp_all
    from lp pq have "entry_live ?s1 p" by (simp add: entry_live_def deref_update)
    from release_live[OF this] obtain r s' where
      rel: "cache_entry_release p ?s1 = Inr (r, s')" and
      len: "length (heap s') = length (heap ?s1)" and nx: "xml_next s' = xml_next ?s1" and
      oth: "\<forall>q'. q' \<noteq> p \<longrightarrow> deref s' q' = deref ?s1 q'"
      by blast
    let ?t1 = "?t[bucket X ?t name := chain_unlink name (?t ! bucket X ?t name)]"
    have rm: "xmlHashRemoveEntry X ?t name cache_free ?s1 = Inr (0, ?t1, s')"
      using Some rel by (rule remove_present)
    have inv1: "table_inv X ?t1" using inv by (rule unlink_inv)
    have look1: "\<And>k. xmlHashLookup X ?t1 k = (if k = name then None else xmlHashLookup X ?t k)"
      using inv by (rule unlink_lookup)
    then have gone: "xmlHashLookup X ?t1 name = None" by simp
    from add_entry_fresh[OF inv1 gone, of q] look1
    have fin: "table_inv X (snd (xmlHashAddEntry X ?t1 name q))"
      "\<And>k. xmlHashLookup X (snd (xmlHashAddEntry X ?t1 name q)) k =
             (if k = name then Some q else xmlHashLookup X ?t k)"
      by simp_all
    from oth pq q1 have "deref s' q = Some (ent\<lparr>ref := ref ent + 1\<rparr>)" by simp
    with fin ar rm rel len nx Some show ?thesis
      by (simp add: cache_replace_def)
  qed
qed

lemma remove_table:
  "xmlHashRemoveEntry X t n f s = Inr (rc, t1, s1) \<Longrightarrow>
   t1 = t[bucket X t n := chain_unlink n (t ! bucket X t n)]"
  by (auto simp: xmlHashRemoveEntry_def unlink_absent split: option.splits sum.splits)

lemma remove_keeps_inv:
  assumes "xmlHashRemoveEntry X t n f s = Inr (rc, t1, s1)" and "table_inv X t"
  shows "table_inv X t1 \<and> xmlHashLookup X t1 n = None"
  using remove_table[OF assms(1)] unlink_inv[OF assms(2), of n] unlink_lookup[OF assms(2), of n n]
  by simp

lemma cache_replace_keeps_inv:
  assumes "cache_replace X This name entry s = Inr (hr, This', s')" and "table_inv X (cache This)"
  shows "table_inv X (cache This')"
proof (cases entry)
  case None
  with assms show ?thesis by (simp add: cache_replace_def)
next
  case (Some e)
  with assms(1) obtain rc t1 s1 s2 where
    rm: "xmlHashRemoveEntry X (cache This) name cache_free s1 = Inr (rc, t1, s2)" and
    res: "This' = This\<lparr>cache := snd (xmlHashAddEntry X t1 name e)\<rparr>"
    by (auto simp: cache_replace_def split: sum.splits)
  from remove_keeps_inv[OF rm assms(2)] add_entry_fresh[of X t1 name e] res
  show ?thesis by simp
qed

lemma add_keeps_inv:
  assumes "schema_cache_add X This uri var s = Inr (hr, This', s')" and "table_inv X (cache This)"
  shows "table_inv X (cache This')"
proof (cases var)
  case VT_NULL
  with assms(1) obtain rc t1 where
    "xmlHashRemoveEntry X (cache This) (xmlChar_from_wchar X uri) cache_free s = Inr (rc, t1, s')"
    "This' = This\<lparr>cache := t1\<rparr>"
    by (auto simp: schema_cache_add_def split: sum.splits)
  with remove_keeps_inv[OF this(1) assms(2)] show ?thesis by simp
next
  case (VT_BSTR b)
  with assms(1) obtain entry sa where
    "cache_replace X This (xmlChar_from_wchar X uri) entry sa = Inr (hr, This', s')"
    by (auto simp: schema_cache_add_def split: prod.splits)
  from cache_replace_keeps_inv[OF this assms(2)] show ?thesis .
next
  case (VT_DISPATCH pdisp)
  with assms(1) have
    "This' = This \<or> (\<exists>entry sa. cache_replace X This (xmlChar_from_wchar X uri) entry sa = Inr (hr, This', s'))"
    by (auto simp: schema_cache_add_def Let_def split: option.splits prod.splits)
  with cache_replace_keeps_inv assms(2) show ?thesis by blast
next
  case (VT_OTHER vt)
  with assms show ?thesis by (simp add: schema_cache_add_def)
qed

lemma distinct_keys_filter_le1:
  "distinct (map fst xs) \<Longrightarrow> length (filter (\<lambda>e. fst e = k) xs) \<le> 1"
  by (induction xs) (auto simp: filter_empty_conv image_iff)

lemma distinct_keys_filter_eq:
  "distinct (map fst xs) \<Longrightarrow> (k, v) \<in> set xs \<Longrightarrow> filter (\<lambda>e. fst e = k) xs = [(k, v)]"
  by (induction xs) (auto simp: filter_empty_conv image_iff)

lemma deref_append_old: "heap sa = heap s @ xs \<Longrightarrow> p < length (heap s) \<Longrightarrow> deref sa p = deref s p"
  by (simp add: deref_def nth_append)

lemma deref_append_new: "heap sa = heap s @ [x] \<Longrightarrow> deref sa (length (heap s)) = x"
  by (simp add: deref_def)

lemma entry_live_less: "entry_live s p \<Longrightarrow> p < length (heap s)"
  by (auto simp: entry_live_def deref_def split: option.splits if_splits)

text \<open>
  A successful \<^verbatim>\<open>add\<close> of a URL or a document binds the uri to the entry built by this
  call, which then holds exactly one reference; the entry bound before was released in a
  state \<open>sb\<close> that agrees with the initial one on every older entry.
\<close>

lemma add_stores_new_entry:
  assumes inv: "table_inv X (cache This)"
    and live: "stored_live X This (xmlChar_from_wchar X uri) s"
    and add: "schema_cache_add X This uri var s = Inr (S_OK, This', s')"
    and src: "var \<noteq> VT_NULL"
  shows "table_inv X (cache This') \<and>
         (\<forall>k. xmlHashLookup X (cache This') k =
                (if k = xmlChar_from_wchar X uri then Some (length (heap s))
                 else xmlHashLookup X (cache This) k)) \<and>
         length (heap s') = Suc (length (heap s)) \<and>
         (\<exists>ent. deref s' (length (heap s)) = Some ent \<and> ref ent = 1 \<and>
                (type ent = SCHEMA_TYPE_XSD \<longrightarrow> schema ent \<noteq> None) \<and>
                xml_next s \<le> doc ent \<and> doc ent < xml_next s') \<and>
         (\<exists>sb cs. (\<forall>x<length (heap s). deref sb x = deref s x) \<and> calls sb = calls s @ cs \<and>
                (case xmlHashLookup X (cache This) (xmlChar_from_wchar X uri) of
                   None \<Rightarrow> s' = sb
                 | Some p \<Rightarrow> \<exists>r. cache_entry_release p sb = Inr (r, s')))"
proof -
  let ?n = "xmlChar_from_wchar X uri"
  let ?q = "length (heap s)"
  from add_success_shape[OF add src] obtain ent sa cs where
    h: "heap sa = heap s @ [Some ent]" and r0: "ref ent = 0" and
    sch: "type ent = SCHEMA_TYPE_XSD \<longrightarrow> schema ent \<noteq> None" and
    d: "xml_next s \<le> doc ent" "doc ent < xml_next sa" and cl: "calls sa = calls s @ cs" and
    rep: "cache_replace X This ?n (Some ?q) sa = Inr (S_OK, This', s')"
    by blast
  have q: "deref sa ?q = Some ent" using h by (rule deref_append_new)
  have old: "case xmlHashLookup X (cache This) ?n of
               None \<Rightarrow> True | Some p \<Rightarrow> p \<noteq> ?q \<and> entry_live sa p"
  proof (cases "xmlHashLookup X (cache This) ?n")
    case None
    then show ?thesis by simp
  next
    case (Some p)
    with live have lp: "entry_live s p" by (simp add: stored_live_def)
    then have "p < ?q" by (rule entry_live_less)
    with lp deref_append_old[OF h this] Some show ?thesis by (simp add: entry_live_def)
  qed
  let ?sb = "sa\<lparr>heap := (heap sa)[?q := Some (ent\<lparr>ref := ref ent + 1\<rparr>)]\<rparr>"
  from cache_replace_effect[OF inv q old] rep have
    c1: "table_inv X (cache This')" and
    c2: "\<forall>k. xmlHashLookup X (cache This') k =
              (if k = ?n then Some ?q else xmlHashLookup X (cache This) k)" and
    c3: "deref s' ?q = Some (ent\<lparr>ref := ref ent + 1\<rparr>)" and
    c4: "xml_next s' = xml_next sa" "length (heap s') = length (heap sa)" and
    c5: "case xmlHashLookup X (cache This) ?n of
           None \<Rightarrow> s' = ?sb | Some p \<Rightarrow> \<exists>r. cache_entry_release p ?sb = Inr (r, s')"
    by auto
  have agree: "\<forall>x<?q. deref ?sb x = deref s x"
    using h by (simp add: deref_def nth_append)
  have "calls ?sb = calls s @ cs" using cl by simp
  with agree c5 have c6: "\<exists>sb cs. (\<forall>x<?q. deref sb x = deref s x) \<and> calls sb = calls s @ cs \<and>
                (case xmlHashLookup X (cache This) ?n of
                   None \<Rightarrow> s' = sb
                 | Some p \<Rightarrow> \<exists>r. cache_entry_release p sb = Inr (r, s'))"
    by blast
  from c3 r0 sch d c4 have c7: "\<exists>ent. deref s' ?q = Some ent \<and> ref ent = 1 \<and>
                (type ent = SCHEMA_TYPE_XSD \<longrightarrow> schema ent \<noteq> None) \<and>
                xml_next s \<le> doc ent \<and> doc ent < xml_next s'"
    by simp
  from c1 c2 c4 h c6 c7 show ?thesis by simp
qed

lemma release_last:
  assumes "deref s p = Some e" and "ref e = 1" and "type e = SCHEMA_TYPE_XSD \<longrightarrow> schema e \<noteq> None"
  shows "cache_entry_release p s =
           Inr (0, s\<lparr>heap := (heap s)[p := None], calls := calls s @ teardown_order p e\<rparr>)"
proof (cases "type e = SCHEMA_TYPE_XSD")
  case True
  with assms(3) obtain sch where "schema e = Some sch" by auto
  with release_last_xsd[OF assms(1,2) True this] True show ?thesis
    by (simp add: teardown_order_def)
next
  case False
  with release_last_other[OF assms(1,2) False] show ?thesis
    by (simp add: teardown_order_def)
qed

lemma add_twice:
  assumes inv: "table_inv X (cache This)"
    and live: "stored_live X This (xmlChar_from_wchar X uri) s"
    and addA: "schema_cache_add X This uri A s = Inr (S_OK, This1, s1)" and srcA: "A \<noteq> VT_NULL"
    and addB: "schema_cache_add X This1 uri B s1 = Inr (S_OK, This2, s2)" and srcB: "B \<noteq> VT_NULL"
  shows "\<exists>entA entB cs.
           xmlHashLookup X (cache This1) (xmlChar_from_wchar X uri) = Some (length (heap s)) \<and>
           deref s1 (length (heap s)) = Some entA \<and>
           xmlHashLookup X (cache This2) (xmlChar_from_wchar X uri) = Some (length (heap s1)) \<and>
           deref s2 (length (heap s1)) = Some entB \<and> ref entB = 1 \<and>
           length (heap s1) \<noteq> length (heap s) \<and> doc entB \<noteq> doc entA \<and>
           deref s2 (length (heap s)) = None \<and>
           calls s2 = calls s1 @ cs @ teardown_order (length (heap s)) entA \<and>
           filter (\<lambda>e. fst e = xmlChar_from_wchar X uri) (concat (cache This2)) =
             [(xmlChar_from_wchar X uri, length (heap s1))] \<and>
           schema_cache_get X This2 uri (Some old) s2 =
             Inr (fst (DOMDocument_create_from_xmldoc X (doc entB) old),
                  Some (snd (DOMDocument_create_from_xmldoc X (doc entB) old)),
                  s2\<lparr>calls := calls s2 @ [DOMDocument_create (doc entB)]\<rparr>)"
proof -
  let ?n = "xmlChar_from_wchar X uri"
  let ?qA = "length (heap s)"
  let ?qB = "length (heap s1)"
  from add_stores_new_entry[OF inv live addA srcA] obtain entA where
    inv1: "table_inv X (cache This1)" and
    l1: "xmlHashLookup X (cache This1) ?n = Some ?qA" and
    len1: "?qB = Suc ?qA" and
    a: "deref s1 ?qA = Some entA" "ref entA = 1"
       "type entA = SCHEMA_TYPE_XSD \<longrightarrow> schema entA \<noteq> None" "doc entA < xml_next s1"
    by auto
  have live1: "stored_live X This1 ?n s1"
    using l1 a by (simp add: stored_live_def entry_live_def)
  from add_stores_new_entry[OF inv1 live1 addB srcB] l1 obtain entB sb cs r where
    inv2: "table_inv X (cache This2)" and
    l2: "xmlHashLookup X (cache This2) ?n = Some ?qB" and
    b: "deref s2 ?qB = Some entB" "ref entB = 1" "xml_next s1 \<le> doc entB" and
    agree: "\<forall>x<?qB. deref sb x = deref s1 x" and cl: "calls sb = calls s1 @ cs" and
    rel: "cache_entry_release ?qA sb = Inr (r, s2)"
    by auto
  from agree len1 a(1) have "deref sb ?qA = Some entA" by simp
  from release_last[OF this a(2,3)] rel
  have s2: "s2 = sb\<lparr>heap := (heap sb)[?qA := None], calls := calls sb @ teardown_order ?qA entA\<rparr>"
    by simp
  have freed: "deref s2 ?qA = None"
    by (subst s2) (simp add: deref_def)
  have log: "calls s2 = calls s1 @ cs @ teardown_order ?qA entA"
    by (subst s2) (simp add: cl)
  have "(?n, ?qB) \<in> set (concat (cache This2))"
    using lookup_iff[OF inv2] l2 by simp
  with table_inv_distinct[OF inv2]
  have one: "filter (\<lambda>e. fst e = ?n) (concat (cache This2)) = [(?n, ?qB)]"
    by (rule distinct_keys_filter_eq)
  have get: "schema_cache_get X This2 uri (Some old) s2 =
             Inr (fst (DOMDocument_create_from_xmldoc X (doc entB) old),
                  Some (snd (DOMDocument_create_from_xmldoc X (doc entB) old)),
                  s2\<lparr>calls := calls s2 @ [DOMDocument_create (doc entB)]\<rparr>)"
    using l2 b(1) by (simp add: schema_cache_get_def)
  from a(4) b(3) have "doc entB \<noteq> doc entA" by simp
  with l1 a(1) l2 b(1,2) len1 freed log one get show ?thesis by auto
qed

subsection \<open>Merging collections\<close>

lemma cache_copy_present:
  "xmlHashLookup X (cache T) k = Some v \<Longrightarrow> cache_copy X p (Inr (T, s)) k = Inr (T, s)"
  by (simp add: cache_copy_def)

lemma cache_copy_absent:
  "xmlHashLookup X (cache T) k = None \<Longrightarrow> deref s p = Some e \<Longrightarrow>
   cache_copy X p (Inr (T, s)) k =
     Inr (T\<lparr>cache := snd (xmlHashAddEntry X (cache T) k p)\<rparr>,
          s\<lparr>heap := (heap s)[p := Some (e\<lparr>ref := ref e + 1\<rparr>)]\<rparr>)"
  by (simp add: cache_copy_def add_ref_Some)

lemma copy_fold:
  assumes "table_inv X (cache T)" and "distinct (map fst xs)"
    and "\<forall>e\<in>set xs. deref s (snd e) \<noteq> None"
  shows "\<exists>T' s'.
           fold (\<lambda>e d. cache_copy X (snd e) d (fst e)) xs (Inr (T, s)) = Inr (T', s') \<and>
           table_inv X (cache T') \<and> sc_ref T' = sc_ref T \<and>
           (\<forall>k. xmlHashLookup X (cache T') k =
                  (case xmlHashLookup X (cache T) k of Some p \<Rightarrow> Some p | None \<Rightarrow> map_of xs k)) \<and>
           calls s' = calls s \<and> xml_next s' = xml_next s \<and>
           (\<forall>p. deref s' p =
                  map_option (\<lambda>e. e\<lparr>ref := ref e + of_nat (copied X T xs p)\<rparr>) (deref s p))"
  using assms
proof (induction xs arbitrary: T s)
  case Nil
  then show ?case by (auto simp: copied_def option.map_ident split: option.splits)
next
  case (Cons x xs)
  obtain k p0 where x: "x = (k, p0)" by (cases x)
  from Cons.prems x have fresh: "k \<notin> fst ` set xs" and dxs: "distinct (map fst xs)" by auto
  show ?case
  proof (cases "xmlHashLookup X (cache T) k")
    case (Some v)
    from Cons.prems(3) have "\<forall>e\<in>set xs. deref s (snd e) \<noteq> None" by simp
    from Cons.IH[OF Cons.prems(1) dxs this] obtain T' s' where
      f: "fold (\<lambda>e d. cache_copy X (snd e) d (fst e)) xs (Inr (T, s)) = Inr (T', s')" and
      i: "table_inv X (cache T')" "sc_ref T' = sc_ref T" and
      l: "\<forall>k. xmlHashLookup X (cache T') k =
                (case xmlHashLookup X (cache T) k of Some p \<Rightarrow> Some p | None \<Rightarrow> map_of xs k)" and
      c: "calls s' = calls s" "xml_next s' = xml_next s" and
      h: "\<forall>p. deref s' p = map_option (\<lambda>e. e\<lparr>ref := ref e + of_nat (copied X T xs p)\<rparr>) (deref s p)"
      by blast
    have cp: "\<And>p. copied X T ((k, p0) # xs) p = copied X T xs p"
      using Some by (simp add: copied_def)
    have l': "\<forall>k'. xmlHashLookup X (cache T') k' =
                (case xmlHashLookup X (cache T) k' of Some p \<Rightarrow> Some p | None \<Rightarrow> map_of ((k, p0) # xs) k')"
      using l Some by (auto split: option.splits)
    from f i l' c h Some show ?thesis
      unfolding x by (simp add: cache_copy_present cp)
  next
    case None
    from Cons.prems(3) x obtain e0 where e0: "deref s p0 = Some e0" by auto
    let ?T1 = "T\<lparr>cache := snd (xmlHashAddEntry X (cache T) k p0)\<rparr>"
    let ?s1 = "s\<lparr>heap := (heap s)[p0 := Some (e0\<lparr>ref := ref e0 + 1\<rparr>)]\<rparr>"
    have step: "cache_copy X p0 (Inr (T, s)) k = Inr (?T1, ?s1)"
      using None e0 by (rule cache_copy_absent)
    from add_entry_fresh[OF Cons.prems(1) None, of p0] have
      inv1: "table_inv X (cache ?T1)" and
      l1: "\<And>k'. xmlHashLookup X (cache ?T1) k' = (if k' = k then Some p0 else xmlHashLookup X (cache T) k')"
      by simp_all
    have d1: "\<And>q. deref ?s1 q = (if q = p0 then Some (e0\<lparr>ref := ref e0 + 1\<rparr>) else deref s q)"
      using deref_Some_less[OF e0] by (simp add: deref_update)
    from Cons.prems(3) d1 have al1: "\<forall>e\<in>set xs. deref ?s1 (snd e) \<noteq> None" by simp
    from Cons.IH[OF inv1 dxs al1] obtain T' s' where
      f: "fold (\<lambda>e d. cache_copy X (snd e) d (fst e)) xs (Inr (?T1, ?s1)) = Inr (T', s')" and
      i: "table_inv X (cache T')" "sc_ref T' = sc_ref ?T1" and
      l: "\<forall>k'. xmlHashLookup X (cache T') k' =
                (case xmlHashLookup X (cache ?T1) k' of Some p \<Rightarrow> Some p | None \<Rightarrow> map_of xs k')" and
      c: "calls s' = calls ?s1" "xml_next s' = xml_next ?s1" and
      h: "\<forall>p. deref s' p = map_option (\<lambda>e. e\<lparr>ref := ref e + of_nat (copied X ?T1 xs p)\<rparr>) (deref ?s1 p)"
      by blast
    have same: "\<And>p. copied X ?T1 xs p = copied X T xs p"
      unfolding copied_def using fresh l1
      by (intro arg_cong[where f = length] filter_cong refl) (auto simp: image_iff)
    have cp: "\<And>p. copied X T ((k, p0) # xs) p = (if p = p0 then Suc (copied X T xs p) else copied X T xs p)"
      using None by (simp add: copied_def)
    have l': "\<forall>k'. xmlHashLookup X (cache T') k' =
                (case xmlHashLookup X (cache T) k' of Some p \<Rightarrow> Some p | None \<Rightarrow> map_of ((k, p0) # xs) k')"
      using l l1 None by (auto split: option.splits)
    have h': "\<forall>p. deref s' p =
                map_option (\<lambda>e. e\<lparr>ref := ref e + of_nat (copied X T ((k, p0) # xs) p)\<rparr>) (deref s p)"
    proof
      fix p
      show "deref s' p =
              map_option (\<lambda>e. e\<lparr>ref := ref e + of_nat (copied X T ((k, p0) # xs) p)\<rparr>) (deref s p)"
        using h[rule_format, of p] d1[of p] e0 by (simp add: same cp add.assoc)
    qed
    from f i l' c h' step show ?thesis
      unfolding x by simp
  qed
qed

subsection \<open>Failing adds\<close>

lemma cache_replace_failure:
  "cache_replace X This name entry s = Inr (hr, This', s') \<Longrightarrow> hr \<noteq> S_OK \<Longrightarrow>
   hr = E_FAIL \<and> This' = This \<and> s' = s \<and> entry = None"
  by (cases entry) (auto simp: cache_replace_def split: sum.splits)

lemma add_failure_codes:
  assumes "schema_cache_add X This uri var s = Inr (hr, This', s')" and "hr \<noteq> S_OK"
  shows "This' = This \<and>
         (case var of
            VT_NULL \<Rightarrow> False
          | VT_BSTR b \<Rightarrow> hr = E_FAIL
          | VT_DISPATCH pdisp \<Rightarrow> hr = E_FAIL \<or> hr = E_INVALIDARG
          | VT_OTHER vt \<Rightarrow> hr = E_INVALIDARG)"
proof (cases var)
  case VT_NULL
  with assms show ?thesis by (auto simp: schema_cache_add_def split: sum.splits)
next
  case (VT_BSTR b)
  with assms(1) obtain entry sa where
    "cache_replace X This (xmlChar_from_wchar X uri) entry sa = Inr (hr, This', s')"
    by (auto simp: schema_cache_add_def split: prod.splits)
  from cache_replace_failure[OF this assms(2)] VT_BSTR show ?thesis by simp
next
  case (VT_DISPATCH pdisp)
  with assms(1) have
    "(This' = This \<and> hr = E_INVALIDARG) \<or>
     (\<exists>entry sa. cache_replace X This (xmlChar_from_wchar X uri) entry sa = Inr (hr, This', s'))"
    by (auto simp: schema_cache_add_def Let_def split: option.splits prod.splits)
  with cache_replace_failure assms(2) VT_DISPATCH show ?thesis by fastforce
next
  case (VT_OTHER vt)
  with assms show ?thesis by (simp add: schema_cache_add_def)
qed

lemma add_failure_cases:
  "schema_cache_add X This uri (VT_OTHER vt) s = Inr (E_INVALIDARG, This, s)"
  "schema_cache_add X This uri
     (VT_DISPATCH (Some (IDispatch (Some (IXMLDOMNode (Some (Target None))))))) s =
     Inr (E_INVALIDARG, This, s\<lparr>calls := calls s @ [IXMLDOMNode_Release]\<rparr>)"
  "schema_type_from_xmlDocPtr d = SCHEMA_TYPE_INVALID \<Longrightarrow>
   schema_cache_add X This uri
     (VT_DISPATCH (Some (IDispatch (Some (IXMLDOMNode (Some (Target (Some d)))))))) s =
     Inr (E_FAIL, This, s\<lparr>calls := calls s @ [IXMLDOMNode_Release]\<rparr>)"
  "schema_type_from_xmlDocPtr d = SCHEMA_TYPE_XSD \<Longrightarrow> \<not> xmlSchemaParse_doc X d \<Longrightarrow>
   schema_cache_add X This uri
     (VT_DISPATCH (Some (IDispatch (Some (IXMLDOMNode (Some (Target (Some d)))))))) s =
     Inr (E_FAIL, This,
          s\<lparr>heap := heap s @ [None], xml_next := xml_next s + 1,
            calls := calls s @ [XmlFreeDoc (xml_next s), Heap_free (length (heap s)),
                                IXMLDOMNode_Release]\<rparr>)"
  "\<not> (xmlSchemaNewParserCtxt X (xmlChar_from_wchar X b) \<and>
      xmlSchemaParse_url X (xmlChar_from_wchar X b)) \<Longrightarrow>
   schema_cache_add X This uri (VT_BSTR b) s =
     Inr (E_FAIL, This,
          s\<lparr>heap := heap s @ [None], calls := calls s @ [Heap_free (length (heap s))]\<rparr>)"
  by (auto simp: schema_cache_add_def cache_replace_def cache_entry_from_url_def
      cache_entry_from_xsd_doc_def Let_def)

lemma SchemaCache_create_inv: "table_inv X (cache (snd SchemaCache_create))"
  by (simp add: SchemaCache_create_def DEFAULT_HASHTABLE_SIZE_def table_inv_create)

lemma remove_keeps_table_inv:
  assumes "schema_cache_remove X This uri s = Inr (hr, This', s')" and "table_inv X (cache This)"
  shows "table_inv X (cache This')"
proof -
  from assms(1) obtain rc t1 where
    "xmlHashRemoveEntry X (cache This) (xmlChar_from_wchar X uri) cache_free s = Inr (rc, t1, s')"
    "This' = This\<lparr>cache := t1\<rparr>"
    by (auto simp: schema_cache_remove_def split: sum.splits)
  with remove_keeps_inv[OF this(1) assms(2)] show ?thesis by simp
qed

subsection \<open>The concrete run\<close>

lemmas demo_defs =
  demo_collaborators_def demo_state_def demo_empty_def demo_xsd_doc_def demo_url_def
  demo_dispatch_def demo_entry_A_def demo_entry_B_def demo_cache_A_def demo_state_A_def
  demo_cache_B_def demo_state_B_def

lemmas run_defs =
  schema_cache_add_def cache_replace_def cache_entry_from_url_def cache_entry_from_xsd_doc_def
  cache_entry_from_xdr_doc_def cache_entry_add_ref_def cache_entry_release_def cache_free_def
  xmlHashRemoveEntry_def xmlHashAddEntry_def xmlHashLookup_def bucket_def deref_def
  schema_type_from_xmlDocPtr_def xmlDocGetRootElement_def xmlStrEqual_def
  XSD_schema_def XSD_nsURI_def XDR_schema_def XDR_nsURI_def
  SchemaCache_create_def xmlHashCreate_def DEFAULT_HASHTABLE_SIZE_def

lemma demo_empty_inv: "table_inv demo_collaborators (cache demo_empty)"
  by (simp add: demo_empty_def SchemaCache_create_inv)

lemma demo_add_A:
  "schema_cache_add demo_collaborators demo_empty (Some [117]) demo_url demo_state =
     Inr (S_OK, demo_cache_A, demo_state_A)"
  by (simp add: demo_defs run_defs)

lemma demo_add_B:
  "schema_cache_add demo_collaborators demo_cache_A (Some [117]) demo_dispatch demo_state_A =
     Inr (S_OK, demo_cache_B, demo_state_B)"
  by (simp add: demo_defs run_defs)

lemma demo_cache_A_inv: "table_inv demo_collaborators (cache demo_cache_A)"
  using add_keeps_inv[OF demo_add_A demo_empty_inv] .

lemma demo_cache_B_inv: "table_inv demo_collaborators (cache demo_cache_B)"
  using add_keeps_inv[OF demo_add_B demo_cache_A_inv] .

lemma demo_name: "xmlChar_from_wchar demo_collaborators (Some [117]) = ''u''"
  by (simp add: demo_collaborators_def)

lemma demo_live_empty: "stored_live demo_collaborators demo_empty ''u'' demo_state"
  by (simp add: stored_live_def demo_defs run_defs)

lemma demo_live_A: "stored_live demo_collaborators demo_cache_A ''u'' demo_state_A"
  by (simp add: stored_live_def entry_live_def demo_defs run_defs)

subsection \<open>Dialect detection\<close>

lemma xmlStrEqual_const: "xmlStrEqual a (Some b) \<longleftrightarrow> a = Some b"
  by (cases a) (auto simp: xmlStrEqual_def)

lemma demo_cache_A_size: "xmlHashSize (cache demo_cache_A) = 1"
  by code_simp

lemma demo_index_examples:
  "schema_cache_get_namespaceURI demo_collaborators demo_cache_A 0 (Some None) =
     (S_OK, Some (Some [117])) \<and>
   schema_cache_get_namespaceURI demo_collaborators demo_cache_A 1 (Some None) =
     (E_FAIL, Some None)"
  by code_simp

subsection \<open>Removal, in full\<close>

lemma chain_unlink_length:
  "map_of c n = Some v \<Longrightarrow> Suc (length (chain_unlink n c)) = length c"
  by (induction c) (auto split: if_splits)

lemma concat_update_length:
  "i < length t \<Longrightarrow> Suc (length c) = length (t ! i) \<Longrightarrow>
   Suc (length (concat (t[i := c]))) = length (concat t)"
proof (induction t arbitrary: i)
  case Nil
  then show ?case by simp
next
  case (Cons a t)
  then show ?case by (cases i) auto
qed

lemma unlink_size:
  assumes "table_inv X t" and "xmlHashLookup X t n = Some p"
  shows "xmlHashSize (t[bucket X t n := chain_unlink n (t ! bucket X t n)]) = xmlHashSize t - 1"
proof -
  have b: "bucket X t n < length t"
    using assms(1) by (simp add: table_inv_def bucket_less)
  have "Suc (length (chain_unlink n (t ! bucket X t n))) = length (t ! bucket X t n)"
    using assms(2) by (simp add: xmlHashLookup_def chain_unlink_length)
  from concat_update_length[OF b this] show ?thesis
    by (simp add: xmlHashSize_def)
qed

text \<open>
  What a removal does, in full: the name is unbound, every other name keeps its entry,
  and the entry that was bound loses one reference, which tears it down when it was the
  last one.
\<close>

lemma remove_effect:
  assumes inv: "table_inv X (cache This)"
    and live: "stored_live X This (xmlChar_from_wchar X uri) s"
  shows "\<exists>This1 s1.
           schema_cache_remove X This uri s = Inr (S_OK, This1, s1) \<and>
           table_inv X (cache This1) \<and> sc_ref This1 = sc_ref This \<and>
           (\<forall>k. xmlHashLookup X (cache This1) k =
                  (if k = xmlChar_from_wchar X uri then None else xmlHashLookup X (cache This) k)) \<and>
           (case xmlHashLookup X (cache This) (xmlChar_from_wchar X uri) of
              None \<Rightarrow> This1 = This \<and> s1 = s
            | Some p \<Rightarrow>
                xmlHashSize (cache This1) = xmlHashSize (cache This) - 1 \<and>
                (\<exists>e. deref s p = Some e \<and>
                   cache_entry_release p s = Inr (ref e - 1, s1) \<and>
                   s1 = (if ref e = 1
                         then s\<lparr>heap := (heap s)[p := None],
                                calls := calls s @ teardown_order p e\<rparr>
                         else s\<lparr>heap := (heap s)[p := Some (e\<lparr>ref := ref e - 1\<rparr>)]\<rparr>)))"
proof -
  let ?n = "xmlChar_from_wchar X uri"
  let ?t1 = "(cache This)[bucket X (cache This) ?n := chain_unlink ?n (cache This ! bucket X (cache This) ?n)]"
  have inv1: "table_inv X ?t1" using inv by (rule unlink_inv)
  have look: "\<forall>k. xmlHashLookup X ?t1 k = (if k = ?n then None else xmlHashLookup X (cache This) k)"
    using unlink_lookup[OF inv] by blast
  show ?thesis
  proof (cases "xmlHashLookup X (cache This) ?n")
    case None
    then have "schema_cache_remove X This uri s = Inr (S_OK, This, s)"
      by (simp add: schema_cache_remove_def remove_absent)
    moreover have "?t1 = cache This" using None by (rule unlink_absent)
    ultimately show ?thesis using None inv look by auto
  next
    case (Some p)
    with live obtain e where e: "deref s p = Some e"
      and sch: "type e = SCHEMA_TYPE_XSD \<longrightarrow> schema e \<noteq> None"
      by (auto simp: stored_live_def entry_live_def split: option.splits)
    let ?s1 = "if ref e = 1
               then s\<lparr>heap := (heap s)[p := None], calls := calls s @ teardown_order p e\<rparr>
               else s\<lparr>heap := (heap s)[p := Some (e\<lparr>ref := ref e - 1\<rparr>)]\<rparr>"
    have rel: "cache_entry_release p s = Inr (ref e - 1, ?s1)"
    proof (cases "ref e = 1")
      case True
      with release_last[OF e True sch] show ?thesis by simp
    next
      case False
      with release_shared[OF e False] show ?thesis by simp
    qed
    have "schema_cache_remove X This uri s = Inr (S_OK, This\<lparr>cache := ?t1\<rparr>, ?s1)"
      using remove_present[OF Some rel] by (simp add: schema_cache_remove_def)
    moreover have "xmlHashSize ?t1 = xmlHashSize (cache This) - 1"
      using inv Some by (rule unlink_size)
    ultimately show ?thesis
      using Some inv1 look e rel
      by (intro exI[of _ "This\<lparr>cache := ?t1\<rparr>"] exI[of _ ?s1]) simp
  qed
qed

lemma demo_remove_A:
  "schema_cache_remove demo_collaborators demo_cache_A (Some [117]) demo_state_A =
     Inr (S_OK, demo_empty, demo_state_removed)"
  by code_simp

lemma demo_lookup_A:
  "xmlHashLookup demo_collaborators (cache demo_cache_A)
     (xmlChar_from_wchar demo_collaborators (Some [117])) = Some 0"
  by (simp add: demo_defs run_defs)

section \<open>The properties of the specification\<close>

text \<open>
  C1. \<^verbatim>\<open>namespaceUriAt(index)\<close> is specified to return an error for every index outside
  \<open>[0, length())\<close>. The code checks \<open>index \<ge> length\<close> only: for the index -1 and an output
  slot, on a collection of length 1 and on the empty collection just created, it returns
  \<^verbatim>\<open>S_OK\<close> and leaves NULL in the slot. (Lemma \<open>get_namespaceURI_in_range\<close> shows the
  in-range part of the specification, \<open>get_namespaceURI_too_big\<close> the error at and above
  the length, \<open>get_namespaceURI_negative\<close> the behaviour at every negative index.)
\<close>

theorem get_namespaceURI_negative_index_succeeds:
  "schema_cache_get_length demo_cache_A (Some 0) = (S_OK, Some 1) \<and>
   schema_cache_get_namespaceURI demo_collaborators demo_cache_A (- 1) (Some None) =
     (S_OK, Some None) \<and>
   schema_cache_get_length (snd SchemaCache_create) (Some 0) = (S_OK, Some 0) \<and>
   schema_cache_get_namespaceURI X (snd SchemaCache_create) (- 1) (Some old) = (S_OK, Some None)"
proof -
  have "schema_cache_get_namespaceURI demo_collaborators demo_cache_A (- 1) (Some None) =
     (S_OK, Some None)"
    by (rule get_namespaceURI_negative) (simp_all add: demo_cache_A_size)
  moreover have "schema_cache_get_length demo_cache_A (Some 0) = (S_OK, Some 1)"
    by (simp add: schema_cache_get_length_def demo_cache_A_size)
  moreover have "schema_cache_get_length (snd SchemaCache_create) (Some 0) = (S_OK, Some 0)"
    by (simp add: schema_cache_get_length_def SchemaCache_create_def xmlHashCreate_def xmlHashSize_def)
  moreover have
    "schema_cache_get_namespaceURI X (snd SchemaCache_create) (- 1) (Some old) = (S_OK, Some None)"
    by (simp add: schema_cache_get_namespaceURI_def SchemaCache_create_def
        xmlHashCreate_def xmlHashSize_def xmlHashScan_def)
  ultimately show ?thesis by blast
qed

text \<open>
  C2. Whatever the source and the outcome, after \<^verbatim>\<open>add(uri, source)\<close> on a table that
  satisfies its invariant the table satisfies it again and holds at most one pair for the
  uri. When \<^verbatim>\<open>add(uri, A)\<close> and then \<^verbatim>\<open>add(uri, B)\<close> succeed (A and B a URL or a document),
  the uri is bound first to the entry built from A and then to the one built from B, a
  different entry with a different document; A's entry has been released and, being held
  by nobody else, torn down and freed, its teardown closing the log; the table holds the
  single pair (uri, B's entry), and \<^verbatim>\<open>get(uri)\<close> builds its view over B's document.
\<close>

theorem add_one_entry_per_uri:
  assumes inv: "table_inv X (cache This)"
  shows "(schema_cache_add X This uri var s = Inr (hr, This', s') \<longrightarrow>
            table_inv X (cache This') \<and>
            length (filter (\<lambda>e. fst e = xmlChar_from_wchar X uri) (concat (cache This'))) \<le> 1) \<and>
         (stored_live X This (xmlChar_from_wchar X uri) s \<and> A \<noteq> VT_NULL \<and> B \<noteq> VT_NULL \<and>
          schema_cache_add X This uri A s = Inr (S_OK, This1, s1) \<and>
          schema_cache_add X This1 uri B s1 = Inr (S_OK, This2, s2) \<longrightarrow>
            (\<exists>entA entB cs.
               xmlHashLookup X (cache This1) (xmlChar_from_wchar X uri) = Some (length (heap s)) \<and>
               deref s1 (length (heap s)) = Some entA \<and>
               xmlHashLookup X (cache This2) (xmlChar_from_wchar X uri) = Some (length (heap s1)) \<and>
               deref s2 (length (heap s1)) = Some entB \<and> ref entB = 1 \<and>
               length (heap s1) \<noteq> length (heap s) \<and> doc entB \<noteq> doc entA \<and>
               deref s2 (length (heap s)) = None \<and>
               calls s2 = calls s1 @ cs @ teardown_order (length (heap s)) entA \<and>
               filter (\<lambda>e. fst e = xmlChar_from_wchar X uri) (concat (cache This2)) =
                 [(xmlChar_from_wchar X uri, length (heap s1))] \<and>
               schema_cache_get X This2 uri (Some old) s2 =
                 Inr (fst (DOMDocument_create_from_xmldoc X (doc entB) old),
                      Some (snd (DOMDocument_create_from_xmldoc X (doc entB) old)),
                      s2\<lparr>calls := calls s2 @ [DOMDocument_create (doc entB)]\<rparr>)))"
proof (intro conjI impI)
  assume a: "schema_cache_add X This uri var s = Inr (hr, This', s')"
  from add_keeps_inv[OF a inv] show i: "table_inv X (cache This')" .
  from distinct_keys_filter_le1[OF table_inv_distinct[OF i]]
  show "length (filter (\<lambda>e. fst e = xmlChar_from_wchar X uri) (concat (cache This'))) \<le> 1" .
next
  assume "stored_live X This (xmlChar_from_wchar X uri) s \<and> A \<noteq> VT_NULL \<and> B \<noteq> VT_NULL \<and>
          schema_cache_add X This uri A s = Inr (S_OK, This1, s1) \<and>
          schema_cache_add X This1 uri B s1 = Inr (S_OK, This2, s2)"
  then have h: "stored_live X This (xmlChar_from_wchar X uri) s" "A \<noteq> VT_NULL" "B \<noteq> VT_NULL"
      "schema_cache_add X This uri A s = Inr (S_OK, This1, s1)"
      "schema_cache_add X This1 uri B s1 = Inr (S_OK, This2, s2)"
    by simp_all
  from add_twice[OF inv h(1) h(4) h(2) h(5) h(3), of old]
  show "\<exists>entA entB cs.
               xmlHashLookup X (cache This1) (xmlChar_from_wchar X uri) = Some (length (heap s)) \<and>
               deref s1 (length (heap s)) = Some entA \<and>
               xmlHashLookup X (cache This2) (xmlChar_from_wchar X uri) = Some (length (heap s1)) \<and>
               deref s2 (length (heap s1)) = Some entB \<and> ref entB = 1 \<and>
               length (heap s1) \<noteq> length (heap s) \<and> doc entB \<noteq> doc entA \<and>
               deref s2 (length (heap s)) = None \<and>
               calls s2 = calls s1 @ cs @ teardown_order (length (heap s)) entA \<and>
               filter (\<lambda>e. fst e = xmlChar_from_wchar X uri) (concat (cache This2)) =
                 [(xmlChar_from_wchar X uri, length (heap s1))] \<and>
               schema_cache_get X This2 uri (Some old) s2 =
                 Inr (fst (DOMDocument_create_from_xmldoc X (doc entB) old),
                      Some (snd (DOMDocument_create_from_xmldoc X (doc entB) old)),
                      s2\<lparr>calls := calls s2 @ [DOMDocument_create (doc entB)]\<rparr>)" .
qed

theorem add_one_entry_per_uri_witness:
  "table_inv demo_collaborators (cache demo_empty) \<and>
   schema_cache_add demo_collaborators demo_empty (Some [117]) demo_url demo_state =
     Inr (S_OK, demo_cache_A, demo_state_A) \<and>
   table_inv demo_collaborators (cache demo_cache_A) \<and>
   length (filter (\<lambda>e. fst e = xmlChar_from_wchar demo_collaborators (Some [117]))
             (concat (cache demo_cache_A))) \<le> 1 \<and>
   stored_live demo_collaborators demo_empty
     (xmlChar_from_wchar demo_collaborators (Some [117])) demo_state \<and>
   demo_url \<noteq> VT_NULL \<and> demo_dispatch \<noteq> VT_NULL \<and>
   schema_cache_add demo_collaborators demo_cache_A (Some [117]) demo_dispatch demo_state_A =
     Inr (S_OK, demo_cache_B, demo_state_B) \<and>
   (\<exists>entA entB cs.
      xmlHashLookup demo_collaborators (cache demo_cache_A)
        (xmlChar_from_wchar demo_collaborators (Some [117])) = Some (length (heap demo_state)) \<and>
      deref demo_state_A (length (heap demo_state)) = Some entA \<and>
      xmlHashLookup demo_collaborators (cache demo_cache_B)
        (xmlChar_from_wchar demo_collaborators (Some [117])) = Some (length (heap demo_state_A)) \<and>
      deref demo_state_B (length (heap demo_state_A)) = Some entB \<and> ref entB = 1 \<and>
      length (heap demo_state_A) \<noteq> length (heap demo_state) \<and> doc entB \<noteq> doc entA \<and>
      deref demo_state_B (length (heap demo_state)) = None \<and>
      calls demo_state_B =
        calls demo_state_A @ cs @ teardown_order (length (heap demo_state)) entA \<and>
      filter (\<lambda>e. fst e = xmlChar_from_wchar demo_collaborators (Some [117]))
        (concat (cache demo_cache_B)) =
        [(xmlChar_from_wchar demo_collaborators (Some [117]), length (heap demo_state_A))] \<and>
      schema_cache_get demo_collaborators demo_cache_B (Some [117]) (Some None) demo_state_B =
        Inr (fst (DOMDocument_create_from_xmldoc demo_collaborators (doc entB) None),
             Some (snd (DOMDocument_create_from_xmldoc demo_collaborators (doc entB) None)),
             demo_state_B\<lparr>calls := calls demo_state_B @ [DOMDocument_create (doc entB)]\<rparr>))"
proof -
  have live: "stored_live demo_collaborators demo_empty
     (xmlChar_from_wchar demo_collaborators (Some [117])) demo_state"
    using demo_live_empty by (simp add: demo_name)
  have src: "demo_url \<noteq> VT_NULL" "demo_dispatch \<noteq> VT_NULL"
    by (simp_all add: demo_url_def demo_dispatch_def)
  note T = add_one_entry_per_uri[OF demo_empty_inv, where uri = "Some [117]" and var = demo_url
      and s = demo_state and hr = S_OK and This' = demo_cache_A and s' = demo_state_A
      and A = demo_url and B = demo_dispatch and ?This1.0 = demo_cache_A
      and ?s1.0 = demo_state_A and ?This2.0 = demo_cache_B and ?s2.0 = demo_state_B
      and old = None]
  from T demo_empty_inv demo_add_A demo_add_B live src show ?thesis by blast
qed

text \<open>
  C3. Each of the three constructors, when it returns an entry, returns it with count 0.
  A successful \<^verbatim>\<open>add\<close> of a URL or a document stores the entry it has built, and the
  stored entry holds count 1: one \<^verbatim>\<open>cache_entry_add_ref\<close> before the store. A release
  that brings the count to 0 frees the struct and appends to the log exactly
  \<open>teardown_order\<close>: the document release, then for an XSD entry the detaching of the
  schema's document and \<^verbatim>\<open>xmlSchemaFree\<close>, then \<^verbatim>\<open>heap_free\<close>. A release that leaves the count
  above 0 only stores the new count and logs nothing; a freed entry cannot be released
  again.
\<close>

theorem cache_entry_lifecycle:
  "(cache_entry_from_url X url s = (Some p, s') \<longrightarrow> map_option ref (deref s' p) = Some 0) \<and>
   (cache_entry_from_xsd_doc X d s = (Some p, s') \<longrightarrow> map_option ref (deref s' p) = Some 0) \<and>
   (cache_entry_from_xdr_doc X d s = (Some p, s') \<longrightarrow> map_option ref (deref s' p) = Some 0) \<and>
   (table_inv X (cache This) \<and> stored_live X This (xmlChar_from_wchar X uri) s \<and>
    var \<noteq> VT_NULL \<and> schema_cache_add X This uri var s = Inr (S_OK, This', s') \<longrightarrow>
      xmlHashLookup X (cache This') (xmlChar_from_wchar X uri) = Some (length (heap s)) \<and>
      map_option ref (deref s' (length (heap s))) = Some 1) \<and>
   (deref s p = Some e \<and> ref e = 1 \<and> (type e = SCHEMA_TYPE_XSD \<longrightarrow> schema e \<noteq> None) \<longrightarrow>
      cache_entry_release p s =
        Inr (0, s\<lparr>heap := (heap s)[p := None], calls := calls s @ teardown_order p e\<rparr>)) \<and>
   (deref s p = Some e \<and> ref e \<noteq> 1 \<longrightarrow>
      cache_entry_release p s =
        Inr (ref e - 1, s\<lparr>heap := (heap s)[p := Some (e\<lparr>ref := ref e - 1\<rparr>)]\<rparr>)) \<and>
   (deref s p = None \<longrightarrow> cache_entry_release p s = Inl UseAfterFree)"
proof (intro conjI impI)
  assume "cache_entry_from_url X url s = (Some p, s')"
  from from_url_Some[OF this] show "map_option ref (deref s' p) = Some 0"
    by (auto simp: deref_def)
next
  assume "cache_entry_from_xsd_doc X d s = (Some p, s')"
  from from_xsd_doc_Some[OF this] show "map_option ref (deref s' p) = Some 0"
    by (auto simp: deref_def)
next
  assume "cache_entry_from_xdr_doc X d s = (Some p, s')"
  from from_xdr_doc_Some[OF this] show "map_option ref (deref s' p) = Some 0"
    by (auto simp: deref_def)
next
  assume a: "table_inv X (cache This) \<and> stored_live X This (xmlChar_from_wchar X uri) s \<and>
    var \<noteq> VT_NULL \<and> schema_cache_add X This uri var s = Inr (S_OK, This', s')"
  then have "table_inv X (cache This)" "stored_live X This (xmlChar_from_wchar X uri) s"
    "schema_cache_add X This uri var s = Inr (S_OK, This', s')" "var \<noteq> VT_NULL"
    by simp_all
  from add_stores_new_entry[OF this]
  show "xmlHashLookup X (cache This') (xmlChar_from_wchar X uri) = Some (length (heap s))"
    and "map_option ref (deref s' (length (heap s))) = Some 1"
    by auto
next
  assume "deref s p = Some e \<and> ref e = 1 \<and> (type e = SCHEMA_TYPE_XSD \<longrightarrow> schema e \<noteq> None)"
  then show "cache_entry_release p s =
        Inr (0, s\<lparr>heap := (heap s)[p := None], calls := calls s @ teardown_order p e\<rparr>)"
    using release_last by blast
next
  assume "deref s p = Some e \<and> ref e \<noteq> 1"
  then show "cache_entry_release p s =
        Inr (ref e - 1, s\<lparr>heap := (heap s)[p := Some (e\<lparr>ref := ref e - 1\<rparr>)]\<rparr>)"
    using release_shared by blast
next
  assume "deref s p = None"
  then show "cache_entry_release p s = Inl UseAfterFree" by (rule release_freed)
qed

theorem cache_entry_lifecycle_witness:
  "fst (cache_entry_from_url demo_collaborators ''fi'' demo_state) = Some 0 \<and>
   map_option ref (deref (snd (cache_entry_from_url demo_collaborators ''fi'' demo_state)) 0) =
     Some 0 \<and>
   fst (cache_entry_from_xsd_doc demo_collaborators demo_xsd_doc demo_state) = Some 0 \<and>
   map_option ref
     (deref (snd (cache_entry_from_xsd_doc demo_collaborators demo_xsd_doc demo_state)) 0) =
     Some 0 \<and>
   fst (cache_entry_from_xdr_doc demo_collaborators demo_xsd_doc demo_state) = Some 0 \<and>
   map_option ref
     (deref (snd (cache_entry_from_xdr_doc demo_collaborators demo_xsd_doc demo_state)) 0) =
     Some 0 \<and>
   table_inv demo_collaborators (cache demo_empty) \<and>
   stored_live demo_collaborators demo_empty
     (xmlChar_from_wchar demo_collaborators (Some [117])) demo_state \<and>
   demo_url \<noteq> VT_NULL \<and>
   schema_cache_add demo_collaborators demo_empty (Some [117]) demo_url demo_state =
     Inr (S_OK, demo_cache_A, demo_state_A) \<and>
   xmlHashLookup demo_collaborators (cache demo_cache_A)
     (xmlChar_from_wchar demo_collaborators (Some [117])) = Some (length (heap demo_state)) \<and>
   map_option ref (deref demo_state_A (length (heap demo_state))) = Some 1 \<and>
   deref demo_state_A 0 = Some demo_entry_A \<and> ref demo_entry_A = 1 \<and>
   type demo_entry_A = SCHEMA_TYPE_XSD \<and> schema demo_entry_A = Some 0 \<and>
   cache_entry_release 0 demo_state_A =
     Inr (0, demo_state_A\<lparr>heap := (heap demo_state_A)[0 := None],
                          calls := calls demo_state_A @ teardown_order 0 demo_entry_A\<rparr>) \<and>
   teardown_order 0 demo_entry_A =
     [Xmldoc_release 1, Schema_doc_NULL 0, XmlSchemaFree 0, Heap_free 0] \<and>
   deref (demo_state_A\<lparr>heap := [Some (demo_entry_A\<lparr>ref := 2\<rparr>)]\<rparr>) 0 =
     Some (demo_entry_A\<lparr>ref := 2\<rparr>) \<and>
   ref (demo_entry_A\<lparr>ref := 2\<rparr>) \<noteq> 1 \<and>
   cache_entry_release 0 (demo_state_A\<lparr>heap := [Some (demo_entry_A\<lparr>ref := 2\<rparr>)]\<rparr>) =
     Inr (ref (demo_entry_A\<lparr>ref := 2\<rparr>) - 1,
          demo_state_A\<lparr>heap := [Some (demo_entry_A\<lparr>ref := 2\<rparr>)]\<rparr>
            \<lparr>heap := (heap (demo_state_A\<lparr>heap := [Some (demo_entry_A\<lparr>ref := 2\<rparr>)]\<rparr>))
                       [0 := Some (demo_entry_A\<lparr>ref := 2\<rparr>\<lparr>ref := ref (demo_entry_A\<lparr>ref := 2\<rparr>) - 1\<rparr>)]\<rparr>) \<and>
   deref demo_state_B 0 = None \<and>
   cache_entry_release 0 demo_state_B = Inl UseAfterFree"
proof -
  let ?X = demo_collaborators
  have u: "cache_entry_from_url ?X ''fi'' demo_state =
             (Some 0, snd (cache_entry_from_url ?X ''fi'' demo_state))"
    by (simp add: demo_defs run_defs)
  have x: "cache_entry_from_xsd_doc ?X demo_xsd_doc demo_state =
             (Some 0, snd (cache_entry_from_xsd_doc ?X demo_xsd_doc demo_state))"
    by (simp add: demo_defs run_defs)
  have r: "cache_entry_from_xdr_doc ?X demo_xsd_doc demo_state =
             (Some 0, snd (cache_entry_from_xdr_doc ?X demo_xsd_doc demo_state))"
    by (simp add: demo_defs run_defs)
  have live: "stored_live ?X demo_empty (xmlChar_from_wchar ?X (Some [117])) demo_state"
    using demo_live_empty by (simp add: demo_name)
  have src: "demo_url \<noteq> VT_NULL" by (simp add: demo_url_def)
  have a: "deref demo_state_A 0 = Some demo_entry_A" "ref demo_entry_A = 1"
    "type demo_entry_A = SCHEMA_TYPE_XSD" "schema demo_entry_A = Some 0"
    by (simp_all add: demo_defs run_defs)
  have td: "teardown_order 0 demo_entry_A =
     [Xmldoc_release 1, Schema_doc_NULL 0, XmlSchemaFree 0, Heap_free 0]"
    by (simp add: teardown_order_def demo_defs)
  have sh: "deref (demo_state_A\<lparr>heap := [Some (demo_entry_A\<lparr>ref := 2\<rparr>)]\<rparr>) 0 =
     Some (demo_entry_A\<lparr>ref := 2\<rparr>)" "ref (demo_entry_A\<lparr>ref := 2\<rparr>) \<noteq> 1"
    by (simp_all add: demo_defs run_defs)
  have fr: "deref demo_state_B 0 = None" by (simp add: demo_defs run_defs)
  note L1 = cache_entry_lifecycle[where X = ?X and url = "''fi''" and s = demo_state and p = 0
      and s' = "snd (cache_entry_from_url ?X ''fi'' demo_state)"]
  note L2 = cache_entry_lifecycle[where X = ?X and d = demo_xsd_doc and s = demo_state and p = 0
      and s' = "snd (cache_entry_from_xsd_doc ?X demo_xsd_doc demo_state)"]
  note L3 = cache_entry_lifecycle[where X = ?X and d = demo_xsd_doc and s = demo_state and p = 0
      and s' = "snd (cache_entry_from_xdr_doc ?X demo_xsd_doc demo_state)"]
  note L4 = cache_entry_lifecycle[where X = ?X and This = demo_empty and uri = "Some [117]"
      and s = demo_state and var = demo_url and This' = demo_cache_A and s' = demo_state_A]
  note L5 = cache_entry_lifecycle[where s = demo_state_A and p = 0 and e = demo_entry_A]
  note L6 = cache_entry_lifecycle[where s = "demo_state_A\<lparr>heap := [Some (demo_entry_A\<lparr>ref := 2\<rparr>)]\<rparr>"
      and p = 0 and e = "demo_entry_A\<lparr>ref := 2\<rparr>"]
  note L7 = cache_entry_lifecycle[where s = demo_state_B and p = 0]
  have c1: "map_option ref (deref (snd (cache_entry_from_url ?X ''fi'' demo_state)) 0) = Some 0"
    using L1 u by blast
  have c2: "map_option ref (deref (snd (cache_entry_from_xsd_doc ?X demo_xsd_doc demo_state)) 0) = Some 0"
    using L2 x by blast
  have c3: "map_option ref (deref (snd (cache_entry_from_xdr_doc ?X demo_xsd_doc demo_state)) 0) = Some 0"
    using L3 r by blast
  have c4: "xmlHashLookup ?X (cache demo_cache_A) (xmlChar_from_wchar ?X (Some [117])) =
              Some (length (heap demo_state)) \<and>
            map_option ref (deref demo_state_A (length (heap demo_state))) = Some 1"
    using L4 demo_empty_inv live src demo_add_A by blast
  have c5: "cache_entry_release 0 demo_state_A =
     Inr (0, demo_state_A\<lparr>heap := (heap demo_state_A)[0 := None],
                          calls := calls demo_state_A @ teardown_order 0 demo_entry_A\<rparr>)"
    using L5 a by simp
  have c6: "cache_entry_release 0 (demo_state_A\<lparr>heap := [Some (demo_entry_A\<lparr>ref := 2\<rparr>)]\<rparr>) =
     Inr (ref (demo_entry_A\<lparr>ref := 2\<rparr>) - 1,
          demo_state_A\<lparr>heap := [Some (demo_entry_A\<lparr>ref := 2\<rparr>)]\<rparr>
            \<lparr>heap := (heap (demo_state_A\<lparr>heap := [Some (demo_entry_A\<lparr>ref := 2\<rparr>)]\<rparr>))
                       [0 := Some (demo_entry_A\<lparr>ref := 2\<rparr>\<lparr>ref := ref (demo_entry_A\<lparr>ref := 2\<rparr>) - 1\<rparr>)]\<rparr>)"
    using L6 sh by blast
  have c7: "cache_entry_release 0 demo_state_B = Inl UseAfterFree"
    using L7 fr by blast
  from u x r have f: "fst (cache_entry_from_url ?X ''fi'' demo_state) = Some 0"
    "fst (cache_entry_from_xsd_doc ?X demo_xsd_doc demo_state) = Some 0"
    "fst (cache_entry_from_xdr_doc ?X demo_xsd_doc demo_state) = Some 0"
    by (metis fst_conv)+
  from f c1 c2 c3 demo_empty_inv live src demo_add_A c4 a c5 td sh c6 fr c7
  show ?thesis by blast
qed

text \<open>
  C4. A failing \<^verbatim>\<open>add\<close> is specified to return \<^verbatim>\<open>E_INVALIDARG\<close> when the dispatch handle
  does not reference a document-bearing node. For a dispatch object that does not answer
  \<^verbatim>\<open>IID_IXMLDOMNode\<close>, \<^verbatim>\<open>domnode\<close> and \<^verbatim>\<open>doc\<close> stay NULL and the code calls
  \<^verbatim>\<open>IXMLDOMNode_Release(domnode)\<close> on the NULL pointer: a NULL dereference, in every state
  and for every uri. (Lemma \<open>add_failure_codes\<close> shows the rest of the specification: an
  \<^verbatim>\<open>add\<close> that returns a failure leaves the collection as it was, with \<^verbatim>\<open>E_FAIL\<close> for a URL,
  \<^verbatim>\<open>E_FAIL\<close> or \<^verbatim>\<open>E_INVALIDARG\<close> for a dispatch object and \<^verbatim>\<open>E_INVALIDARG\<close> for any other
  variant type.)
\<close>

theorem add_dispatch_without_node_faults:
  "schema_cache_add X This uri (VT_DISPATCH (Some (IDispatch None))) s = Inl NullDeref"
  by (simp add: schema_cache_add_def)

text \<open>
  C5. The detector classifies a parsed document from its root element alone: no root
  element or a root without a namespace is invalid; a root named "schema" in the XSD
  namespace is XSD, a root named "Schema" in the XDR namespace is XDR, anything else is
  invalid. The right-hand side reads the name of the root and the href of its namespace
  and nothing else of the document.
\<close>

theorem schema_type_from_root_signature:
  "schema_type_from_xmlDocPtr d =
     (case xmlDocGetRootElement d of
        None \<Rightarrow> SCHEMA_TYPE_INVALID
      | Some root \<Rightarrow>
          (case node_ns root of
             None \<Rightarrow> SCHEMA_TYPE_INVALID
           | Some ns \<Rightarrow>
               if node_name root = ''schema'' \<and>
                  href ns = Some ''http://www.w3.org/2001/XMLSchema''
               then SCHEMA_TYPE_XSD
               else if node_name root = ''Schema'' \<and>
                       href ns = Some ''urn:schemas-microsoft-com:xml-data''
               then SCHEMA_TYPE_XDR
               else SCHEMA_TYPE_INVALID))"
  by (simp add: schema_type_from_xmlDocPtr_def xmlStrEqual_const XSD_schema_def XSD_nsURI_def
        XDR_schema_def XDR_nsURI_def split: option.splits)

text \<open>
  C6. \<^verbatim>\<open>get(uri)\<close> without an output slot returns \<^verbatim>\<open>E_POINTER\<close> and changes nothing. With
  a slot and the uri absent it returns \<^verbatim>\<open>S_OK\<close> with NULL in the slot and changes nothing.
  With the uri bound to an allocated entry it returns what
  \<^verbatim>\<open>DOMDocument_create_from_xmldoc\<close> builds over the entry's document; the heap, and with
  it the entry and its count, is unchanged, and the call of the view constructor is the
  only addition to the log.
\<close>

theorem schema_cache_get_outcomes:
  "schema_cache_get X This uri None s = Inr (E_POINTER, None, s) \<and>
   (xmlHashLookup X (cache This) (xmlChar_from_wchar X uri) = None \<longrightarrow>
      schema_cache_get X This uri (Some old) s = Inr (S_OK, Some None, s)) \<and>
   (xmlHashLookup X (cache This) (xmlChar_from_wchar X uri) = Some p \<and> deref s p = Some e \<longrightarrow>
      (\<exists>s'. schema_cache_get X This uri (Some old) s =
               Inr (fst (DOMDocument_create_from_xmldoc X (doc e) old),
                    Some (snd (DOMDocument_create_from_xmldoc X (doc e) old)), s') \<and>
            heap s' = heap s \<and> deref s' p = Some e \<and>
            calls s' = calls s @ [DOMDocument_create (doc e)]))"
  by (simp add: schema_cache_get_def)

theorem schema_cache_get_outcomes_witness:
  "schema_cache_get demo_collaborators demo_cache_A (Some [117]) None demo_state_A =
     Inr (E_POINTER, None, demo_state_A) \<and>
   xmlHashLookup demo_collaborators (cache demo_empty)
     (xmlChar_from_wchar demo_collaborators (Some [117])) = None \<and>
   schema_cache_get demo_collaborators demo_empty (Some [117]) (Some (Some 9)) demo_state =
     Inr (S_OK, Some None, demo_state) \<and>
   xmlHashLookup demo_collaborators (cache demo_cache_A)
     (xmlChar_from_wchar demo_collaborators (Some [117])) = Some 0 \<and>
   deref demo_state_A 0 = Some demo_entry_A \<and>
   (\<exists>s'. schema_cache_get demo_collaborators demo_cache_A (Some [117]) (Some None) demo_state_A =
            Inr (fst (DOMDocument_create_from_xmldoc demo_collaborators (doc demo_entry_A) None),
                 Some (snd (DOMDocument_create_from_xmldoc demo_collaborators (doc demo_entry_A) None)),
                 s') \<and>
         heap s' = heap demo_state_A \<and> deref s' 0 = Some demo_entry_A \<and>
         calls s' = calls demo_state_A @ [DOMDocument_create (doc demo_entry_A)])"
proof -
  have h1: "xmlHashLookup demo_collaborators (cache demo_empty)
     (xmlChar_from_wchar demo_collaborators (Some [117])) = None"
    by (simp add: demo_defs run_defs)
  have h2: "xmlHashLookup demo_collaborators (cache demo_cache_A)
     (xmlChar_from_wchar demo_collaborators (Some [117])) = Some 0 \<and>
     deref demo_state_A 0 = Some demo_entry_A"
    by (simp add: demo_defs run_defs)
  note a = schema_cache_get_outcomes[of demo_collaborators demo_cache_A "Some [117]" demo_state_A
      "None" 0 demo_entry_A]
  note b = schema_cache_get_outcomes[of demo_collaborators demo_empty "Some [117]" demo_state
      "Some 9"]
  from a b h1 h2 show ?thesis by blast
qed

text \<open>
  C7. \<^verbatim>\<open>addCollection\<close> with a NULL collection returns \<^verbatim>\<open>E_POINTER\<close>. Otherwise, when
  both tables satisfy the invariant and the other collection's entries are allocated, it
  returns \<^verbatim>\<open>S_OK\<close>; every name bound in self keeps its entry; every name bound only in the
  other collection is bound in self to the other's entry, the same pointer; the count of
  every entry grows by the number of names under which it was copied, and nothing else of
  the heap or the log changes.
\<close>

theorem addCollection_merges:
  assumes invT: "table_inv X (cache This)" and invO: "table_inv X (cache That)"
    and alloc: "entries_allocated That s"
  shows "schema_cache_addCollection X This None s = Inr (E_POINTER, This, s) \<and>
         (\<exists>This' s'.
            schema_cache_addCollection X This (Some That) s = Inr (S_OK, This', s') \<and>
            table_inv X (cache This') \<and>
            (\<forall>k. xmlHashLookup X (cache This') k =
                   (case xmlHashLookup X (cache This) k of
                      Some p \<Rightarrow> Some p
                    | None \<Rightarrow> xmlHashLookup X (cache That) k)) \<and>
            (\<forall>p. deref s' p =
                   map_option
                     (\<lambda>e. e\<lparr>ref := ref e + of_nat (copied X This (concat (cache That)) p)\<rparr>)
                     (deref s p)) \<and>
            calls s' = calls s)"
proof -
  have al: "\<forall>e\<in>set (concat (cache That)). deref s (snd e) \<noteq> None"
    using alloc by (simp add: entries_allocated_def list_all_iff)
  from copy_fold[OF invT table_inv_distinct[OF invO] al] obtain T' s' where
    f: "fold (\<lambda>e d. cache_copy X (snd e) d (fst e)) (concat (cache That)) (Inr (This, s)) = Inr (T', s')" and
    i: "table_inv X (cache T')" and
    l: "\<forall>k. xmlHashLookup X (cache T') k =
              (case xmlHashLookup X (cache This) k of
                 Some p \<Rightarrow> Some p | None \<Rightarrow> map_of (concat (cache That)) k)" and
    c: "calls s' = calls s" and
    h: "\<forall>p. deref s' p =
              map_option (\<lambda>e. e\<lparr>ref := ref e + of_nat (copied X This (concat (cache That)) p)\<rparr>)
                (deref s p)"
    by blast
  have "schema_cache_addCollection X This (Some That) s = Inr (S_OK, T', s')"
    using f by (simp add: schema_cache_addCollection_def xmlHashScan_def)
  moreover have "\<forall>k. xmlHashLookup X (cache T') k =
                   (case xmlHashLookup X (cache This) k of
                      Some p \<Rightarrow> Some p
                    | None \<Rightarrow> xmlHashLookup X (cache That) k)"
    using l by (auto simp: lookup_map_of[OF invO] split: option.splits)
  ultimately show ?thesis
    using i c h by (simp add: schema_cache_addCollection_def)
qed

theorem addCollection_merges_witness:
  "table_inv demo_collaborators (cache demo_empty) \<and>
   table_inv demo_collaborators (cache demo_cache_A) \<and>
   entries_allocated demo_cache_A demo_state_A \<and>
   xmlHashLookup demo_collaborators (cache demo_cache_A) ''u'' = Some 0 \<and>
   copied demo_collaborators demo_empty (concat (cache demo_cache_A)) 0 = 1 \<and>
   schema_cache_addCollection demo_collaborators demo_empty None demo_state_A =
     Inr (E_POINTER, demo_empty, demo_state_A) \<and>
   (\<exists>This' s'.
      schema_cache_addCollection demo_collaborators demo_empty (Some demo_cache_A) demo_state_A =
        Inr (S_OK, This', s') \<and>
      table_inv demo_collaborators (cache This') \<and>
      xmlHashLookup demo_collaborators (cache This') ''u'' = Some 0 \<and>
      deref s' 0 = Some (demo_entry_A\<lparr>ref := 2\<rparr>) \<and>
      calls s' = calls demo_state_A)"
proof -
  have al: "entries_allocated demo_cache_A demo_state_A"
    by code_simp
  have lk: "xmlHashLookup demo_collaborators (cache demo_cache_A) ''u'' = Some 0"
    "xmlHashLookup demo_collaborators (cache demo_empty) ''u'' = None"
    by (simp_all add: demo_defs run_defs)
  have cp: "copied demo_collaborators demo_empty (concat (cache demo_cache_A)) 0 = 1"
    by code_simp
  have d: "deref demo_state_A 0 = Some demo_entry_A" "ref demo_entry_A = 1"
    by (simp_all add: demo_defs run_defs)
  from addCollection_merges[OF demo_empty_inv demo_cache_A_inv al] obtain This' s' where
    r: "schema_cache_addCollection demo_collaborators demo_empty None demo_state_A =
          Inr (E_POINTER, demo_empty, demo_state_A)"
       "schema_cache_addCollection demo_collaborators demo_empty (Some demo_cache_A) demo_state_A =
          Inr (S_OK, This', s')"
       "table_inv demo_collaborators (cache This')"
       "calls s' = calls demo_state_A" and
    l: "\<forall>k. xmlHashLookup demo_collaborators (cache This') k =
             (case xmlHashLookup demo_collaborators (cache demo_empty) k of
                Some p \<Rightarrow> Some p
              | None \<Rightarrow> xmlHashLookup demo_collaborators (cache demo_cache_A) k)" and
    h: "\<forall>p. deref s' p =
             map_option
               (\<lambda>e. e\<lparr>ref := ref e + of_nat (copied demo_collaborators demo_empty
                                                (concat (cache demo_cache_A)) p)\<rparr>)
               (deref demo_state_A p)"
    by blast
  from l[rule_format, of "''u''"] lk have l': "xmlHashLookup demo_collaborators (cache This') ''u'' = Some 0"
    by simp
  from h[rule_format, of 0] cp d have h': "deref s' 0 = Some (demo_entry_A\<lparr>ref := 2\<rparr>)"
    by simp
  from demo_empty_inv demo_cache_A_inv al lk(1) cp r l' h' show ?thesis by blast
qed

text \<open>
  C8. For every uri, present or not, on a table that satisfies the invariant and whose
  entry for the uri (if any) is live, \<^verbatim>\<open>add(uri, VT_NULL)\<close> returns \<^verbatim>\<open>S_OK\<close>; afterwards the
  uri is unbound and \<^verbatim>\<open>get(uri)\<close> returns \<^verbatim>\<open>S_OK\<close> with NULL in the slot. When the uri was
  absent nothing has changed; when it was bound, the state is the one
  \<^verbatim>\<open>cache_entry_release\<close> leaves.
\<close>

theorem add_null_then_get:
  assumes inv: "table_inv X (cache This)"
    and live: "stored_live X This (xmlChar_from_wchar X uri) s"
  shows "\<exists>This1 s1.
           schema_cache_add X This uri VT_NULL s = Inr (S_OK, This1, s1) \<and>
           xmlHashLookup X (cache This1) (xmlChar_from_wchar X uri) = None \<and>
           schema_cache_get X This1 uri (Some old) s1 = Inr (S_OK, Some None, s1) \<and>
           (case xmlHashLookup X (cache This) (xmlChar_from_wchar X uri) of
              None \<Rightarrow> This1 = This \<and> s1 = s
            | Some p \<Rightarrow> \<exists>r. cache_entry_release p s = Inr (r, s1))"
proof -
  let ?n = "xmlChar_from_wchar X uri"
  let ?t1 = "(cache This)[bucket X (cache This) ?n := chain_unlink ?n (cache This ! bucket X (cache This) ?n)]"
  have eq: "schema_cache_add X This uri VT_NULL s = schema_cache_remove X This uri s"
    by (simp add: schema_cache_add_def schema_cache_remove_def)
  from remove_result[OF live] obtain s1 where
    r1: "schema_cache_remove X This uri s = Inr (S_OK, This\<lparr>cache := ?t1\<rparr>, s1)" and
    eff: "case xmlHashLookup X (cache This) ?n of None \<Rightarrow> s1 = s
          | Some p \<Rightarrow> \<exists>r. cache_entry_release p s = Inr (r, s1)"
    by blast
  have gone: "xmlHashLookup X ?t1 ?n = None"
    using unlink_lookup[OF inv, of ?n ?n] by simp
  then have g: "schema_cache_get X (This\<lparr>cache := ?t1\<rparr>) uri (Some old) s1 = Inr (S_OK, Some None, s1)"
    by (simp add: schema_cache_get_def)
  have same: "xmlHashLookup X (cache This) ?n = None \<Longrightarrow> This\<lparr>cache := ?t1\<rparr> = This"
    by (simp add: unlink_absent)
  show ?thesis
    using r1 g gone eff same unfolding eq
    by (intro exI[of _ "This\<lparr>cache := ?t1\<rparr>"] exI[of _ s1])
       (auto split: option.splits)
qed

theorem add_null_then_get_witness:
  "table_inv demo_collaborators (cache demo_cache_A) \<and>
   stored_live demo_collaborators demo_cache_A
     (xmlChar_from_wchar demo_collaborators (Some [117])) demo_state_A \<and>
   (\<exists>This1 s1.
      schema_cache_add demo_collaborators demo_cache_A (Some [117]) VT_NULL demo_state_A =
        Inr (S_OK, This1, s1) \<and>
      xmlHashLookup demo_collaborators (cache This1)
        (xmlChar_from_wchar demo_collaborators (Some [117])) = None \<and>
      schema_cache_get demo_collaborators This1 (Some [117]) (Some None) s1 =
        Inr (S_OK, Some None, s1) \<and>
      (case xmlHashLookup demo_collaborators (cache demo_cache_A)
              (xmlChar_from_wchar demo_collaborators (Some [117])) of
         None \<Rightarrow> This1 = demo_cache_A \<and> s1 = demo_state_A
       | Some p \<Rightarrow> \<exists>r. cache_entry_release p demo_state_A = Inr (r, s1)))"
proof -
  have live: "stored_live demo_collaborators demo_cache_A
     (xmlChar_from_wchar demo_collaborators (Some [117])) demo_state_A"
    using demo_live_A by (simp add: demo_name)
  from add_null_then_get[OF demo_cache_A_inv live, of None] demo_cache_A_inv live
  show ?thesis by blast
qed

text \<open>
  C9. On a table that satisfies the invariant and whose entry for the uri (if any) is
  live, \<^verbatim>\<open>remove(uri)\<close> returns \<^verbatim>\<open>S_OK\<close>, and a second \<^verbatim>\<open>remove(uri)\<close> returns \<^verbatim>\<open>S_OK\<close>
  again and returns the collection and the state it was given, so the length is the same.
  After the first call the uri is unbound and every other name is bound as before.
  Removing an absent uri changes nothing. Removing a bound one takes one pair out of the
  table and releases the collection's reference to its entry: when that was the last
  reference the struct is freed and the teardown is appended to the log, otherwise the
  count of the entry is one less and nothing else of the state changes.
\<close>

theorem schema_cache_remove_idempotent:
  assumes inv: "table_inv X (cache This)"
    and live: "stored_live X This (xmlChar_from_wchar X uri) s"
  shows "\<exists>This1 s1.
           schema_cache_remove X This uri s = Inr (S_OK, This1, s1) \<and>
           schema_cache_remove X This1 uri s1 = Inr (S_OK, This1, s1) \<and>
           schema_cache_get_length This1 (Some l) =
             (S_OK, Some (word_of_int (xmlHashSize (cache This1)))) \<and>
           xmlHashLookup X (cache This1) (xmlChar_from_wchar X uri) = None \<and>
           (\<forall>k. xmlHashLookup X (cache This1) k =
                  (if k = xmlChar_from_wchar X uri then None else xmlHashLookup X (cache This) k)) \<and>
           (case xmlHashLookup X (cache This) (xmlChar_from_wchar X uri) of
              None \<Rightarrow> This1 = This \<and> s1 = s
            | Some p \<Rightarrow>
                xmlHashSize (cache This1) = xmlHashSize (cache This) - 1 \<and>
                (\<exists>e. deref s p = Some e \<and>
                   cache_entry_release p s = Inr (ref e - 1, s1) \<and>
                   s1 = (if ref e = 1
                         then s\<lparr>heap := (heap s)[p := None],
                                calls := calls s @ teardown_order p e\<rparr>
                         else s\<lparr>heap := (heap s)[p := Some (e\<lparr>ref := ref e - 1\<rparr>)]\<rparr>)))"
proof -
  let ?n = "xmlChar_from_wchar X uri"
  from remove_effect[OF inv live] obtain This1 s1 where
    r1: "schema_cache_remove X This uri s = Inr (S_OK, This1, s1)" and
    look: "\<forall>k. xmlHashLookup X (cache This1) k =
                (if k = ?n then None else xmlHashLookup X (cache This) k)" and
    eff: "case xmlHashLookup X (cache This) ?n of
              None \<Rightarrow> This1 = This \<and> s1 = s
            | Some p \<Rightarrow>
                xmlHashSize (cache This1) = xmlHashSize (cache This) - 1 \<and>
                (\<exists>e. deref s p = Some e \<and>
                   cache_entry_release p s = Inr (ref e - 1, s1) \<and>
                   s1 = (if ref e = 1
                         then s\<lparr>heap := (heap s)[p := None],
                                calls := calls s @ teardown_order p e\<rparr>
                         else s\<lparr>heap := (heap s)[p := Some (e\<lparr>ref := ref e - 1\<rparr>)]\<rparr>))"
    by blast
  from look have gone: "xmlHashLookup X (cache This1) ?n = None" by simp
  then have r2: "schema_cache_remove X This1 uri s1 = Inr (S_OK, This1, s1)"
    by (simp add: schema_cache_remove_def remove_absent)
  have len: "schema_cache_get_length This1 (Some l) =
             (S_OK, Some (word_of_int (xmlHashSize (cache This1))))"
    by (simp add: schema_cache_get_length_def)
  from r1 r2 len gone look eff show ?thesis by blast
qed

theorem schema_cache_remove_idempotent_witness:
  "table_inv demo_collaborators (cache demo_cache_A) \<and>
   stored_live demo_collaborators demo_cache_A
     (xmlChar_from_wchar demo_collaborators (Some [117])) demo_state_A \<and>
   xmlHashLookup demo_collaborators (cache demo_cache_A)
     (xmlChar_from_wchar demo_collaborators (Some [117])) = Some 0 \<and>
   schema_cache_remove demo_collaborators demo_cache_A (Some [117]) demo_state_A =
     Inr (S_OK, demo_empty, demo_state_removed) \<and>
   schema_cache_remove demo_collaborators demo_empty (Some [117]) demo_state_removed =
     Inr (S_OK, demo_empty, demo_state_removed) \<and>
   schema_cache_get_length demo_empty (Some 7) =
     (S_OK, Some (word_of_int (xmlHashSize (cache demo_empty)))) \<and>
   xmlHashLookup demo_collaborators (cache demo_empty)
     (xmlChar_from_wchar demo_collaborators (Some [117])) = None \<and>
   xmlHashSize (cache demo_empty) = xmlHashSize (cache demo_cache_A) - 1 \<and>
   (\<exists>e. deref demo_state_A 0 = Some e \<and>
        cache_entry_release 0 demo_state_A = Inr (ref e - 1, demo_state_removed) \<and>
        demo_state_removed =
          (if ref e = 1
           then demo_state_A\<lparr>heap := (heap demo_state_A)[0 := None],
                              calls := calls demo_state_A @ teardown_order 0 e\<rparr>
           else demo_state_A\<lparr>heap := (heap demo_state_A)[0 := Some (e\<lparr>ref := ref e - 1\<rparr>)]\<rparr>))"
proof -
  have live: "stored_live demo_collaborators demo_cache_A
     (xmlChar_from_wchar demo_collaborators (Some [117])) demo_state_A"
    using demo_live_A by (simp add: demo_name)
  from schema_cache_remove_idempotent[OF demo_cache_A_inv live, of 7]
  show ?thesis
    using demo_cache_A_inv live by (auto simp: demo_remove_A demo_lookup_A)
qed

text \<open>
  C10. In every state and for every uri, \<^verbatim>\<open>add(uri, VT_NULL)\<close> and \<^verbatim>\<open>remove(uri)\<close> are
  the same function. On a table that satisfies the invariant and whose entry for the uri
  (if any) is live, both return \<^verbatim>\<open>S_OK\<close> with the same collection and the same state:
  the uri is unbound, every other name is bound as before, an absent uri changes nothing,
  and a bound one loses its pair and has its entry released, torn down when the
  reference was the last and with its count one less otherwise.
\<close>

theorem add_null_is_remove:
  "schema_cache_add X This uri VT_NULL s = schema_cache_remove X This uri s \<and>
   (table_inv X (cache This) \<and> stored_live X This (xmlChar_from_wchar X uri) s \<longrightarrow>
      (\<exists>This1 s1.
         schema_cache_add X This uri VT_NULL s = Inr (S_OK, This1, s1) \<and>
         schema_cache_remove X This uri s = Inr (S_OK, This1, s1) \<and>
         (\<forall>k. xmlHashLookup X (cache This1) k =
                (if k = xmlChar_from_wchar X uri then None else xmlHashLookup X (cache This) k)) \<and>
         (case xmlHashLookup X (cache This) (xmlChar_from_wchar X uri) of
            None \<Rightarrow> This1 = This \<and> s1 = s
          | Some p \<Rightarrow>
              xmlHashSize (cache This1) = xmlHashSize (cache This) - 1 \<and>
              (\<exists>e. deref s p = Some e \<and>
                 cache_entry_release p s = Inr (ref e - 1, s1) \<and>
                 s1 = (if ref e = 1
                       then s\<lparr>heap := (heap s)[p := None],
                              calls := calls s @ teardown_order p e\<rparr>
                       else s\<lparr>heap := (heap s)[p := Some (e\<lparr>ref := ref e - 1\<rparr>)]\<rparr>)))))"
proof (intro conjI impI)
  show eq: "schema_cache_add X This uri VT_NULL s = schema_cache_remove X This uri s"
    by (simp add: schema_cache_add_def schema_cache_remove_def)
  assume "table_inv X (cache This) \<and> stored_live X This (xmlChar_from_wchar X uri) s"
  then have "table_inv X (cache This)" "stored_live X This (xmlChar_from_wchar X uri) s"
    by simp_all
  from remove_effect[OF this] show "\<exists>This1 s1.
         schema_cache_add X This uri VT_NULL s = Inr (S_OK, This1, s1) \<and>
         schema_cache_remove X This uri s = Inr (S_OK, This1, s1) \<and>
         (\<forall>k. xmlHashLookup X (cache This1) k =
                (if k = xmlChar_from_wchar X uri then None else xmlHashLookup X (cache This) k)) \<and>
         (case xmlHashLookup X (cache This) (xmlChar_from_wchar X uri) of
            None \<Rightarrow> This1 = This \<and> s1 = s
          | Some p \<Rightarrow>
              xmlHashSize (cache This1) = xmlHashSize (cache This) - 1 \<and>
              (\<exists>e. deref s p = Some e \<and>
                 cache_entry_release p s = Inr (ref e - 1, s1) \<and>
                 s1 = (if ref e = 1
                       then s\<lparr>heap := (heap s)[p := None],
                              calls := calls s @ teardown_order p e\<rparr>
                       else s\<lparr>heap := (heap s)[p := Some (e\<lparr>ref := ref e - 1\<rparr>)]\<rparr>)))"
    unfolding eq by blast
qed

theorem add_null_is_remove_witness:
  "table_inv demo_collaborators (cache demo_cache_A) \<and>
   stored_live demo_collaborators demo_cache_A
     (xmlChar_from_wchar demo_collaborators (Some [117])) demo_state_A \<and>
   xmlHashLookup demo_collaborators (cache demo_cache_A)
     (xmlChar_from_wchar demo_collaborators (Some [117])) = Some 0 \<and>
   schema_cache_add demo_collaborators demo_cache_A (Some [117]) VT_NULL demo_state_A =
     Inr (S_OK, demo_empty, demo_state_removed) \<and>
   schema_cache_remove demo_collaborators demo_cache_A (Some [117]) demo_state_A =
     Inr (S_OK, demo_empty, demo_state_removed) \<and>
   xmlHashLookup demo_collaborators (cache demo_empty)
     (xmlChar_from_wchar demo_collaborators (Some [117])) = None \<and>
   xmlHashSize (cache demo_empty) = xmlHashSize (cache demo_cache_A) - 1 \<and>
   (\<exists>e. deref demo_state_A 0 = Some e \<and>
        cache_entry_release 0 demo_state_A = Inr (ref e - 1, demo_state_removed) \<and>
        demo_state_removed =
          (if ref e = 1
           then demo_state_A\<lparr>heap := (heap demo_state_A)[0 := None],
                              calls := calls demo_state_A @ teardown_order 0 e\<rparr>
           else demo_state_A\<lparr>heap := (heap demo_state_A)[0 := Some (e\<lparr>ref := ref e - 1\<rparr>)]\<rparr>))"
proof -
  have live: "stored_live demo_collaborators demo_cache_A
     (xmlChar_from_wchar demo_collaborators (Some [117])) demo_state_A"
    using demo_live_A by (simp add: demo_name)
  note T = add_null_is_remove[of demo_collaborators demo_cache_A "Some [117]" demo_state_A]
  from T demo_cache_A_inv live have
    E: "\<exists>This1 s1.
         schema_cache_add demo_collaborators demo_cache_A (Some [117]) VT_NULL demo_state_A =
           Inr (S_OK, This1, s1) \<and>
         schema_cache_remove demo_collaborators demo_cache_A (Some [117]) demo_state_A =
           Inr (S_OK, This1, s1) \<and>
         (\<forall>k. xmlHashLookup demo_collaborators (cache This1) k =
                (if k = xmlChar_from_wchar demo_collaborators (Some [117]) then None
                 else xmlHashLookup demo_collaborators (cache demo_cache_A) k)) \<and>
         (case xmlHashLookup demo_collaborators (cache demo_cache_A)
                 (xmlChar_from_wchar demo_collaborators (Some [117])) of
            None \<Rightarrow> This1 = demo_cache_A \<and> s1 = demo_state_A
          | Some p \<Rightarrow>
              xmlHashSize (cache This1) = xmlHashSize (cache demo_cache_A) - 1 \<and>
              (\<exists>e. deref demo_state_A p = Some e \<and>
                 cache_entry_release p demo_state_A = Inr (ref e - 1, s1) \<and>
                 s1 = (if ref e = 1
                       then demo_state_A\<lparr>heap := (heap demo_state_A)[p := None],
                              calls := calls demo_state_A @ teardown_order p e\<rparr>
                       else demo_state_A\<lparr>heap := (heap demo_state_A)[p := Some (e\<lparr>ref := ref e - 1\<rparr>)]\<rparr>)))"
    by blast
  then show ?thesis
    using demo_cache_A_inv live by (auto simp: demo_remove_A demo_lookup_A)
qed

end
